theory Spec2Isabelle
  imports Complex_Main "HOL-Library.Product_Lexorder"
begin

section \<open>Data model (transit/models.py)\<close>

text \<open>
  A Python float is written as the real number it denotes. The floats that the code holds
  are doubles, the fixed points of \<open>round_double\<close> below, and each arithmetic
  operation of the code is modelled with its rounding. Python's unbounded integers are
  \<open>int\<close>. A table is the list of its rows in the store's iteration order.
\<close>

record BusStop =
  pk :: int
  name :: string
  latitude :: real
  longitude :: real

record Route =
  route_pk :: int
  start_stop_id :: int
  end_stop_id :: int
  distance :: real
  duration :: "real option"

record db =
  bus_stops :: "BusStop list"
  routes :: "Route list"

text \<open>Every exception class that one of the modelled functions can raise.\<close>

datatype exn =
    DoesNotExist
  | MultipleObjectsReturned
  | KeyError
  | ValueError
  | HTTPError
  | URLError
  | SocketTimeout
  | SSLError
  | JSONDecodeError
  | UnicodeDecodeError

section \<open>Double arithmetic\<close>

text \<open>
  IEEE 754 binary64 with round to nearest, ties to even, which is what Python's float
  operations do. \<open>round_half_even\<close> rounds a real to the nearest integer, a tie going
  to the even one. \<open>binade x\<close> is the exponent \<open>e\<close> with
  \<open>2 ^ e \<le> \<bar>x\<bar> < 2 ^ (e + 1)\<close>, but not less than the exponent -1022 of the least
  normal double, and \<open>ulp x\<close> is the distance between neighbouring doubles there
  (53 significant bits). \<open>nearest x\<close> is the multiple of \<open>ulp x\<close> nearest to
  \<open>x\<close>. A result of magnitude \<open>2 ^ 1024\<close> or more overflows to inf, for which
  \<open>float_inf\<close> stands; nan is outside the model.
\<close>

definition round_half_even :: "real \<Rightarrow> int" where
  "round_half_even x =
     (let f = \<lfloor>x\<rfloor>; r = x - of_int f
      in if r < 1 / 2 then f
         else if 1 / 2 < r then f + 1
         else if even f then f else f + 1)"

definition pow2 :: "int \<Rightarrow> real" where
  "pow2 k = (if 0 \<le> k then 2 ^ nat k else 1 / 2 ^ nat (- k))"

definition binade :: "real \<Rightarrow> int" where
  "binade x = max (- 1022) \<lfloor>log 2 \<bar>x\<bar>\<rfloor>"

definition ulp :: "real \<Rightarrow> real" where
  "ulp x = pow2 (binade x - 52)"

definition float_inf :: real where
  "float_inf = 2 ^ 1024"

definition saturate :: "real \<Rightarrow> real" where
  "saturate y = max (- float_inf) (min float_inf y)"

definition nearest :: "real \<Rightarrow> real" where
  "nearest x = of_int (round_half_even (x / ulp x)) * ulp x"

definition round_double :: "real \<Rightarrow> real" where
  "round_double x = (if x = 0 then 0 else saturate (nearest x))"

definition is_inf :: "real \<Rightarrow> bool" where
  "is_inf x \<longleftrightarrow> float_inf \<le> \<bar>x\<bar>"

text \<open>
  \<open>x + y\<close>, \<open>x - y\<close>, \<open>x * y\<close> and \<open>x / y\<close> on floats. In a sum an infinite
  operand is absorbing (inf - inf, which is nan, is outside the model). Products and
  quotients are modelled for finite operands, the divisor not zero.
\<close>

definition fadd :: "real \<Rightarrow> real \<Rightarrow> real" where
  "fadd x y =
     (if is_inf x then saturate x else if is_inf y then saturate y else round_double (x + y))"



definition fdiv :: "real \<Rightarrow> real \<Rightarrow> real" where
  "fdiv x y = round_double (x / y)"

text \<open>
  The value that a loop \<open>acc = 0.0; for x in xs: acc += x\<close> leaves in \<open>acc\<close>.
\<close>

definition float_sum :: "real list \<Rightarrow> real" where
  "float_sum xs = foldl fadd 0 xs"

subsection \<open>Properties of the rounding\<close>

lemma float_inf_pos [simp]: "0 < float_inf"
  by (simp add: float_inf_def)

lemma float_inf_nonneg [simp]: "0 \<le> float_inf"
  by (simp add: float_inf_def)


lemma saturate_minus: "saturate (- y) = - saturate y"
  using float_inf_pos unfolding saturate_def min_def max_def by (auto; linarith)

lemma saturate_id: "\<bar>y\<bar> \<le> float_inf \<Longrightarrow> saturate y = y"
  unfolding saturate_def min_def max_def by (auto; linarith)

lemma saturate_nonneg: "0 \<le> y \<Longrightarrow> saturate y = min float_inf y"
  using float_inf_pos by (simp add: saturate_def min_def max_def)

lemma pow2_powr: "pow2 k = 2 powr of_int k"
  by (simp add: pow2_def powr_int)

lemma ulp_powr: "ulp x = 2 powr of_int (binade x - 52)"
  by (simp add: ulp_def pow2_powr)

lemma rhe_bounds: "x - 1 / 2 \<le> of_int (round_half_even x)" "of_int (round_half_even x) \<le> x + 1 / 2"
  unfolding round_half_even_def Let_def by (auto; linarith)+

lemma rhe_of_int [simp]: "round_half_even (of_int n) = n"
  by (simp add: round_half_even_def)

lemma rhe_mono:
  assumes "x \<le> y"
  shows "round_half_even x \<le> round_half_even y"
proof (rule ccontr)
  assume "\<not> round_half_even x \<le> round_half_even y"
  then have lt: "round_half_even y + 1 \<le> round_half_even x"
    by simp
  have a: "of_int (round_half_even x) \<le> x + 1 / 2"
    by (rule rhe_bounds)
  have b: "y - 1 / 2 \<le> of_int (round_half_even y)"
    by (rule rhe_bounds)
  have "real_of_int (round_half_even y) + 1 \<le> real_of_int (round_half_even x)"
    using lt by linarith
  with a b assms have "x = y"
    by linarith
  with lt show False
    by simp
qed

lemma floor_minus_non_int:
  assumes "x \<notin> \<int>"
  shows "\<lfloor>- x\<rfloor> = - \<lfloor>x\<rfloor> - 1"
proof (rule floor_unique)
  have "of_int \<lfloor>x\<rfloor> \<noteq> x"
    using assms by (metis Ints_of_int)
  then have lt: "of_int \<lfloor>x\<rfloor> < x"
    using of_int_floor_le [of x] by linarith
  have "x < of_int \<lfloor>x\<rfloor> + 1"
    by linarith
  then show "of_int (- \<lfloor>x\<rfloor> - 1) \<le> - x"
    by simp
  show "- x < of_int (- \<lfloor>x\<rfloor> - 1) + 1"
    using lt by simp
qed

lemma rhe_minus: "round_half_even (- x) = - round_half_even x"
proof (cases "x \<in> \<int>")
  case True
  then obtain n where n: "x = of_int n"
    by (auto elim: Ints_cases)
  have "round_half_even (of_int (- n)) = - n"
    by (rule rhe_of_int)
  then show ?thesis
    using n by simp
next
  case False
  have f: "\<lfloor>- x\<rfloor> = - \<lfloor>x\<rfloor> - 1"
    using False by (rule floor_minus_non_int)
  have lt: "of_int \<lfloor>x\<rfloor> < x"
    using False of_int_floor_le [of x] by (metis Ints_of_int less_eq_real_def)
  define r where "r = x - of_int \<lfloor>x\<rfloor>"
  have r: "0 < r" "r < 1"
    unfolding r_def using lt by linarith+
  have r': "- x - of_int (- \<lfloor>x\<rfloor> - 1) = 1 - r"
    unfolding r_def by simp
  have ev: "even (- \<lfloor>x\<rfloor> - 1) \<longleftrightarrow> \<not> even \<lfloor>x\<rfloor>"
    by simp
  consider "r < 1 / 2" | "1 / 2 < r" | "r = 1 / 2"
    by linarith
  then show ?thesis
  proof cases
    case 1
    then show ?thesis
      unfolding round_half_even_def Let_def f r' ev r_def [symmetric] by simp
  next
    case 2
    then show ?thesis
      unfolding round_half_even_def Let_def f r' ev r_def [symmetric] by simp
  next
    case 3
    then show ?thesis
      unfolding round_half_even_def Let_def f r' ev r_def [symmetric] by simp
  qed
qed


lemma ulp_pos [simp]: "0 < ulp x"
  by (simp add: ulp_powr)

lemma ulp_nonneg [simp]: "0 \<le> ulp x"
  by (simp add: ulp_powr)

lemma ulp_neq_zero [simp]: "ulp x \<noteq> 0"
  using ulp_pos [of x] by linarith

lemma ulp_minus [simp]: "ulp (- x) = ulp x"
  by (simp add: ulp_def binade_def)

lemma round_double_zero [simp]: "round_double 0 = 0"
  by (simp add: round_double_def)

lemma nearest_minus: "nearest (- x) = - nearest x"
  by (simp add: nearest_def rhe_minus)

lemma round_double_minus: "round_double (- x) = - round_double x"
  by (simp add: round_double_def nearest_minus saturate_minus)

lemma rhe_nonneg: "0 \<le> x \<Longrightarrow> 0 \<le> round_half_even x"
  using rhe_mono [of 0 x] rhe_of_int [of 0] by simp


lemma powr_shift: "(2::real) powr (a + of_nat n) = 2 ^ n * 2 powr a"
  by (simp add: powr_add powr_realpow)

lemma ulp_next: "2 powr of_int (binade x + 1) = 2 ^ 53 * ulp x"
proof -
  have "real_of_int (binade x + 1) = of_int (binade x - 52) + of_nat 53"
    by simp
  then show ?thesis
    unfolding ulp_powr using powr_shift [of "of_int (binade x - 52)" 53] by metis
qed


lemma floor_log_bounds:
  assumes "0 < x"
  shows "2 powr of_int \<lfloor>log 2 x\<rfloor> \<le> x" "x < 2 powr of_int (\<lfloor>log 2 x\<rfloor> + 1)"
  using floor_log_eq_powr_iff [of x 2 "\<lfloor>log 2 x\<rfloor>"] assms by simp_all


lemma below_next_binade:
  assumes "0 < x"
  shows "x < 2 powr of_int (binade x + 1)"
proof -
  have "x < 2 powr of_int (\<lfloor>log 2 x\<rfloor> + 1)"
    using assms by (rule floor_log_bounds)
  also have "\<dots> \<le> 2 powr of_int (binade x + 1)"
    using assms by (intro powr_mono) (simp_all add: binade_def)
  finally show ?thesis .
qed

lemma quotient_below:
  assumes "0 < x"
  shows "x / ulp x < 2 ^ 53"
proof -
  have "x < 2 ^ 53 * ulp x"
    using below_next_binade [OF assms] unfolding ulp_next .
  then show ?thesis
    using ulp_pos [of x] by (simp add: pos_divide_less_eq)
qed

lemma rhe_le_int: "x \<le> of_int n \<Longrightarrow> round_half_even x \<le> n"
  using rhe_mono [of x "of_int n"] by simp









lemma round_double_exact:
  assumes x: "x = of_int m * 2 powr of_int k"
    and m: "\<bar>m\<bar> < 2 ^ 53"
    and k: "- 1074 \<le> k"
    and r: "\<bar>x\<bar> \<le> float_inf"
  shows "round_double x = x"
proof (cases "x = 0")
  case True
  then show ?thesis
    by simp
next
  case False
  have ax: "\<bar>x\<bar> = of_int \<bar>m\<bar> * 2 powr of_int k"
    unfolding x by (simp add: abs_mult)
  have pos: "0 < \<bar>x\<bar>"
    using False by simp
  have "real_of_int \<bar>m\<bar> < 2 ^ 53"
    using m by (metis of_int_less_iff of_int_numeral of_int_power)
  then have "\<bar>x\<bar> < 2 ^ 53 * 2 powr of_int k"
    unfolding ax by simp
  also have "\<dots> = 2 powr (of_int k + of_nat 53)"
    by (simp only: powr_shift)
  finally have "(2::real) powr of_int \<lfloor>log 2 \<bar>x\<bar>\<rfloor> < 2 powr (of_int k + of_nat 53)"
    using floor_log_bounds(1) [OF pos] by linarith
  then have "real_of_int \<lfloor>log 2 \<bar>x\<bar>\<rfloor> < of_int k + of_nat 53"
    by simp
  then have "\<lfloor>log 2 \<bar>x\<bar>\<rfloor> < k + 53"
    by linarith
  then have b: "binade x \<le> k + 52"
    using k by (simp add: binade_def)
  define j where "j = nat (k - binade x + 52)"
  have "real_of_int k = of_int (binade x - 52) + of_nat j"
    unfolding j_def using b by simp
  then have pk: "2 powr of_int k = 2 ^ j * ulp x"
    unfolding ulp_powr using powr_shift [of "of_int (binade x - 52)" j] by metis
  have xj: "x = of_int m * 2 ^ j * ulp x"
    using x unfolding pk by simp
  have "x / ulp x = of_int m * 2 ^ j * ulp x / ulp x"
    using xj by simp
  also have "\<dots> = of_int m * 2 ^ j"
    using ulp_pos [of x] by simp
  also have "\<dots> = of_int (m * 2 ^ j)"
    by simp
  finally have "round_half_even (x / ulp x) = m * 2 ^ j"
    by (simp only: rhe_of_int)
  then have "nearest x = of_int m * 2 ^ j * ulp x"
    unfolding nearest_def by simp
  then have "nearest x = x"
    using xj by simp
  then show ?thesis
    using False r by (simp add: round_double_def saturate_id)
qed

lemma round_double_of_int:
  assumes "\<bar>n\<bar> < 2 ^ 53"
  shows "round_double (of_int n) = of_int n"
proof (rule round_double_exact [where m = n and k = 0])
  show "real_of_int n = of_int n * 2 powr of_int 0"
    by simp
  have "\<bar>real_of_int n\<bar> < 2 ^ 53"
    using assms by (metis of_int_abs of_int_less_iff of_int_numeral of_int_power)
  also have "(2::real) ^ 53 \<le> 2 ^ 1024"
    by (rule power_increasing) simp_all
  finally show "\<bar>real_of_int n\<bar> \<le> float_inf"
    by (simp add: float_inf_def)
qed (use assms in simp_all)

lemma round_double_dyadic:
  assumes "\<bar>m\<bar> < 2 ^ 53" "k \<le> 1074" "\<bar>real_of_int m / 2 ^ k\<bar> \<le> float_inf"
  shows "round_double (of_int m / 2 ^ k) = of_int m / 2 ^ k"
proof (rule round_double_exact [where m = m and k = "- int k"])
  have "(2::real) powr of_int (- int k) = 1 / 2 ^ k"
    by (simp add: powr_minus powr_realpow divide_simps)
  then show "real_of_int m / 2 ^ k = of_int m * 2 powr of_int (- int k)"
    by simp
qed (use assms in simp_all)


lemma round_double_top [simp]: "round_double float_inf = float_inf"
proof (rule round_double_exact [where m = 1 and k = 1024])
  have "(2::real) powr (0 + of_nat 1024) = 2 ^ 1024 * 2 powr 0"
    by (rule powr_shift)
  then show "float_inf = of_int 1 * 2 powr of_int 1024"
    by (simp add: float_inf_def)
qed simp_all

lemma round_double_idem_pos:
  assumes "0 < x"
  shows "round_double (round_double x) = round_double x"
proof -
  define n where "n = round_half_even (x / ulp x)"
  have n0: "0 \<le> n"
    unfolding n_def using assms ulp_pos [of x] by (intro rhe_nonneg divide_nonneg_pos) simp_all
  have "x / ulp x \<le> of_int (2 ^ 53)"
    using quotient_below [OF assms] by simp
  then have n1: "n \<le> 2 ^ 53"
    unfolding n_def by (rule rhe_le_int)
  have nx: "nearest x = of_int n * ulp x"
    by (simp add: nearest_def n_def)
  have nn: "0 \<le> nearest x"
    unfolding nx using n0 by (intro mult_nonneg_nonneg) simp_all
  have rd: "round_double x = min float_inf (nearest x)"
    using assms nn by (simp add: round_double_def saturate_nonneg)
  show ?thesis
  proof (cases "float_inf \<le> nearest x")
    case True
    then have "round_double x = float_inf"
      unfolding rd by simp
    then show ?thesis
      by (simp only: round_double_top)
  next
    case False
    then have eq: "round_double x = of_int n * ulp x"
      unfolding rd nx by simp
    have le: "\<bar>round_double x\<bar> \<le> float_inf"
      using False nn unfolding rd by simp
    have bl: "- 1022 \<le> binade x"
      by (simp add: binade_def)
    show ?thesis
    proof (cases "n = 2 ^ 53")
      case True
      have "real_of_int (binade x - 51) = of_int (binade x - 52) + of_nat 1"
        by simp
      then have "2 powr of_int (binade x - 51) = 2 ^ 1 * ulp x"
        unfolding ulp_powr using powr_shift [of "of_int (binade x - 52)" 1] by metis
      then have "round_double x = of_int (2 ^ 52) * 2 powr of_int (binade x - 51)"
        unfolding eq True by simp
      then show ?thesis
        using le bl by (intro round_double_exact [where m = "2 ^ 52" and k = "binade x - 51"]) simp_all
    next
      case False
      then have "\<bar>n\<bar> < 2 ^ 53"
        using n0 n1 by simp
      moreover have "round_double x = of_int n * 2 powr of_int (binade x - 52)"
        unfolding eq ulp_powr ..
      ultimately show ?thesis
        using le bl by (intro round_double_exact [where m = n and k = "binade x - 52"]) simp_all
    qed
  qed
qed

lemma round_double_idem [simp]: "round_double (round_double x) = round_double x"
proof -
  consider "0 < x" | "x = 0" | "x < 0"
    by linarith
  then show ?thesis
  proof cases
    case 1
    then show ?thesis
      by (rule round_double_idem_pos)
  next
    case 2
    then show ?thesis
      by simp
  next
    case 3
    then have "round_double (round_double (- x)) = round_double (- x)"
      by (intro round_double_idem_pos) simp
    then show ?thesis
      by (simp add: round_double_minus)
  qed
qed






lemma saturate_inf: "is_inf x \<Longrightarrow> saturate x = (if 0 \<le> x then float_inf else - float_inf)"
  using float_inf_pos unfolding saturate_def is_inf_def min_def max_def by (auto; linarith)

lemma round_double_saturate_inf: "is_inf x \<Longrightarrow> round_double (saturate x) = saturate x"
  by (simp add: saturate_inf round_double_minus)

text \<open>Float addition of non-negative numbers.\<close>

lemma fadd_double [simp]: "round_double (fadd x y) = fadd x y"
  by (simp add: fadd_def round_double_saturate_inf)








text \<open>Evaluation on numbers that are doubles.\<close>

lemma not_is_inf_small: "\<bar>x\<bar> < 2 ^ 53 \<Longrightarrow> \<not> is_inf x"
proof -
  assume "\<bar>x\<bar> < 2 ^ 53"
  also have "(2::real) ^ 53 \<le> 2 ^ 1024"
    by (rule power_increasing) simp_all
  finally show ?thesis
    by (simp add: is_inf_def float_inf_def)
qed

lemma rhe_zero [simp]: "round_half_even 0 = 0"
  using rhe_of_int [of 0] by simp

lemma rhe_numeral [simp]: "round_half_even (numeral k) = numeral k"
  using rhe_of_int [of "numeral k"] by simp

lemma round_double_one [simp]: "round_double 1 = 1"
  using round_double_of_int [of 1] by simp

lemma round_double_numeral [simp]:
  "(numeral k :: int) < 2 ^ 53 \<Longrightarrow> round_double (numeral k) = numeral k"
  using round_double_of_int [of "numeral k"] by simp

lemma round_double_fraction:
  assumes "\<bar>m\<bar> < 2 ^ 53" "k \<le> 1021"
  shows "round_double (of_int m / 2 ^ k) = of_int m / 2 ^ k"
proof (rule round_double_dyadic)
  have "\<bar>real_of_int m\<bar> < 2 ^ 53"
    using assms(1) by (metis of_int_abs of_int_less_iff of_int_numeral of_int_power)
  moreover have "\<bar>real_of_int m / 2 ^ k\<bar> \<le> \<bar>real_of_int m\<bar>"
  proof -
    have "\<bar>real_of_int m\<bar> / 2 ^ k \<le> \<bar>real_of_int m\<bar> / 1"
      by (intro divide_left_mono) simp_all
    then show ?thesis
      by (simp add: abs_divide)
  qed
  ultimately have "\<bar>real_of_int m / 2 ^ k\<bar> \<le> 2 ^ 53"
    by linarith
  also have "(2::real) ^ 53 \<le> 2 ^ 1024"
    by (rule power_increasing) simp_all
  finally show "\<bar>real_of_int m / 2 ^ k\<bar> \<le> float_inf"
    by (simp add: float_inf_def)
qed (use assms in simp_all)

section \<open>Python built-ins used by the code\<close>

text \<open>
  \<open>round(x, n)\<close> for \<open>n \<ge> 0\<close>: the multiple of \<open>10 ^ -n\<close> nearest to the exact
  value of \<open>x\<close>, a tie going to the even neighbour, converted to the nearest double;
  inf is returned as it is.
\<close>

definition py_round :: "real \<Rightarrow> nat \<Rightarrow> real" where
  "py_round x ndigits =
     (if is_inf x then saturate x
      else round_double (of_int (round_half_even (x * 10 ^ ndigits)) / 10 ^ ndigits))"

text \<open>
  \<open>heapq\<close> on a list of tuples. Tuples compare lexicographically, which is the
  order of \<open>real \<times> int\<close> here. The array layout of the binary heap is not modelled:
  \<open>heappop\<close> returns the least entry and removes one copy of it, and only the entries
  held decide which value that is. \<open>heappop\<close> on an empty heap raises IndexError
  (\<open>None\<close>); the code guards it with \<open>while heap\<close>.
\<close>

definition heappush :: "(real \<times> int) list \<Rightarrow> real \<times> int \<Rightarrow> (real \<times> int) list" where
  "heappush heap item = heap @ [item]"

fun heappop :: "(real \<times> int) list \<Rightarrow> ((real \<times> int) \<times> (real \<times> int) list) option" where
  "heappop [] = None"
| "heappop (x # xs) = (let m = fold min xs x in Some (m, remove1 m (x # xs)))"


section \<open>Shortest path (transit/utils.py)\<close>

text \<open>
  The graph is a dict from a stop id to the list of its outgoing arcs; a dict keeps its
  keys in insertion order, so it is an association list with distinct keys.
\<close>

type_synonym graph = "(int \<times> (int \<times> real) list) list"

text \<open>\<open>graph.setdefault(u, []).append(e)\<close>\<close>

fun setdefault_append :: "int \<Rightarrow> int \<times> real \<Rightarrow> graph \<Rightarrow> graph" where
  "setdefault_append u e [] = [(u, [e])]"
| "setdefault_append u e ((k, es) # g) =
     (if k = u then (k, es @ [e]) # g else (k, es) # setdefault_append u e g)"

text \<open>
  \<open>Route.objects.select_related("start_stop", "end_stop").all()\<close>: the routes joined
  with their two stops (both foreign keys are mandatory, so the join is an inner join).
  Under the store's constraints (unique primary keys, valid foreign keys) every route
  appears exactly once.
\<close>

definition select_related :: "db \<Rightarrow> (Route \<times> BusStop \<times> BusStop) list" where
  "select_related d =
     concat (map (\<lambda>r.
       concat (map (\<lambda>s. map (\<lambda>t. (r, s, t))
                               (filter (\<lambda>t. pk t = end_stop_id r) (bus_stops d)))
                   (filter (\<lambda>s. pk s = start_stop_id r) (bus_stops d))))
       (routes d))"

text \<open>\<open>build_graph\<close>; \<open>add_edge\<close> is the body of its loop.\<close>

fun add_edge :: "Route \<times> BusStop \<times> BusStop \<Rightarrow> graph \<Rightarrow> graph" where
  "add_edge (edge, s, t) g =
     setdefault_append (start_stop_id edge) (end_stop_id edge, distance edge) g"

definition build_graph :: "db \<Rightarrow> graph" where
  "build_graph d = fold add_edge (select_related d) []"

text \<open>\<open>graph.get(u, [])\<close>\<close>

definition graph_get :: "graph \<Rightarrow> int \<Rightarrow> (int \<times> real) list" where
  "graph_get g u = (case map_of g u of None \<Rightarrow> [] | Some es \<Rightarrow> es)"

text \<open>
  The inner loop \<open>for v, w in graph.get(u, [])\<close>, on the dictionaries \<open>dist\<close> and
  \<open>prev\<close> and the heap. \<open>prev\<close> maps a stop to its predecessor or to Python's
  \<open>None\<close> (the origin's entry). \<open>relax_arc\<close> is the body of the loop.
\<close>

type_synonym dstate = "(int \<rightharpoonup> real) \<times> (int \<rightharpoonup> int option) \<times> (real \<times> int) list"

fun relax_arc :: "real \<Rightarrow> int \<Rightarrow> int \<times> real \<Rightarrow> dstate \<Rightarrow> dstate" where
  "relax_arc d u (v, w) (dist_map, prev_map, heap) =
     (let alt = fadd d w
      in if (case dist_map v of None \<Rightarrow> True | Some dv \<Rightarrow> alt < dv)
         then (dist_map(v \<mapsto> alt), prev_map(v \<mapsto> Some u), heappush heap (alt, v))
         else (dist_map, prev_map, heap))"

fun relax :: "real \<Rightarrow> int \<Rightarrow> (int \<times> real) list \<Rightarrow> dstate \<Rightarrow> dstate" where
  "relax d u [] s = s"
| "relax d u (e # es) s = relax d u es (relax_arc d u e s)"

text \<open>The stops named by the arcs of a graph (used to bound the main loop).\<close>

definition graph_targets :: "graph \<Rightarrow> int set" where
  "graph_targets g = (\<Union>(k, es) \<in> set g. fst ` set es)"

text \<open>
  The main loop \<open>while heap\<close>: pop the least entry; skip it when its stop is settled;
  stop at the destination; otherwise relax the stop's arcs.
\<close>

function dijkstra_loop ::
  "graph \<Rightarrow> int \<Rightarrow> (int \<rightharpoonup> real) \<Rightarrow> (int \<rightharpoonup> int option) \<Rightarrow> (real \<times> int) list \<Rightarrow> int set
     \<Rightarrow> (int \<rightharpoonup> real) \<times> (int \<rightharpoonup> int option)" where
  "dijkstra_loop g destination_id dist_map prev_map heap visited =
     (case heappop heap of
        None \<Rightarrow> (dist_map, prev_map)
      | Some ((d, u), heap') \<Rightarrow>
          if u \<in> visited then dijkstra_loop g destination_id dist_map prev_map heap' visited
          else if u = destination_id then (dist_map, prev_map)
          else (case relax d u (graph_get g u) (dist_map, prev_map, heap') of
                  (dist_map', prev_map', heap'') \<Rightarrow>
                    dijkstra_loop g destination_id dist_map' prev_map' heap'' (insert u visited)))"
  by pat_completeness auto

lemma heappop_Some:
  assumes "heappop heap = Some (m, heap')"
  shows "m \<in> set heap" and "heap' = remove1 m heap" and "\<forall>x \<in> set heap. m \<le> x"
proof -
  obtain x xs where h: "heap = x # xs"
    using assms by (cases heap) auto
  have "m = fold min xs x"
    using assms h by (simp add: Let_def)
  then have m: "m = Min (set (x # xs))"
    using Min.set_eq_fold [of x xs] by simp
  show "m \<in> set heap"
    unfolding m h by (rule Min_in) auto
  show "heap' = remove1 m heap"
    using assms h by (auto simp: Let_def)
  show "\<forall>x \<in> set heap. m \<le> x"
    unfolding m h by (auto intro: Min_le)
qed

lemma relax_arc_heap_nodes:
  "relax_arc d u e (dist_map, prev_map, heap) = (dist_map', prev_map', heap')
   \<Longrightarrow> snd ` set heap' \<subseteq> insert (fst e) (snd ` set heap)"
  by (cases e) (auto simp: Let_def heappush_def split: if_splits)

lemma relax_heap_nodes:
  "relax d u es (dist_map, prev_map, heap) = (dist_map', prev_map', heap')
   \<Longrightarrow> snd ` set heap' \<subseteq> snd ` set heap \<union> fst ` set es"
proof (induction es arbitrary: dist_map prev_map heap)
  case Nil
  then show ?case by simp
next
  case (Cons e es)
  obtain dist1 prev1 heap1 where
    step: "relax_arc d u e (dist_map, prev_map, heap) = (dist1, prev1, heap1)"
    by (cases "relax_arc d u e (dist_map, prev_map, heap)")
  with Cons.prems have "relax d u es (dist1, prev1, heap1) = (dist_map', prev_map', heap')"
    by simp
  from Cons.IH [OF this] relax_arc_heap_nodes [OF step] show ?case
    by auto
qed

lemma graph_get_targets: "fst ` set (graph_get g u) \<subseteq> graph_targets g"
proof (cases "map_of g u")
  case None
  then show ?thesis by (simp add: graph_get_def)
next
  case (Some es)
  then have "(u, es) \<in> set g" by (rule map_of_SomeD)
  then show ?thesis
    using Some by (force simp: graph_get_def graph_targets_def)
qed

termination dijkstra_loop
proof (relation "measures
    [\<lambda>(g, dest, dist_map, prev_map, heap, visited). card ((graph_targets g \<union> snd ` set heap) - visited),
     \<lambda>(g, dest, dist_map, prev_map, heap, visited). length heap]", goal_cases)
  case 1
  show ?case by simp
next
  case (2 g dest dist_map prev_map heap visited x2 x y d u)
  then have pop: "heappop heap = Some ((d, u), y)" by simp
  have "finite (graph_targets g)"
    unfolding graph_targets_def by (rule finite_UN_I) auto
  then have fin: "finite ((graph_targets g \<union> snd ` set heap) - visited)"
    by simp
  have "set y \<subseteq> set heap"
    using heappop_Some(2) [OF pop] by (simp add: set_remove1_subset)
  then have sub: "(graph_targets g \<union> snd ` set y) - visited
               \<subseteq> (graph_targets g \<union> snd ` set heap) - visited"
    by blast
  have len: "length y < length heap"
    using heappop_Some(1,2) [OF pop] by (simp add: length_remove1) (cases heap, auto)
  from card_mono [OF fin sub] len show ?case
    by auto
next
  case (3 g dest dist_map prev_map heap visited x2 x y d u dist_map' z prev_map' heap'')
  then have pop: "heappop heap = Some ((d, u), y)" by simp
  from 3 have rel: "relax d u (graph_get g u) (dist_map, prev_map, y) = (dist_map', prev_map', heap'')"
    by (metis prod.collapse prod.inject)
  from 3 have nv: "u \<notin> visited" by simp
  have "finite (graph_targets g)"
    unfolding graph_targets_def by (rule finite_UN_I) auto
  then have fin: "finite ((graph_targets g \<union> snd ` set heap) - visited)"
    by simp
  have uin: "u \<in> (graph_targets g \<union> snd ` set heap) - visited"
    using heappop_Some(1) [OF pop] nv by force
  have "snd ` set heap'' \<subseteq> snd ` set y \<union> graph_targets g"
    using relax_heap_nodes [OF rel] graph_get_targets [of g u] by blast
  moreover have "set y \<subseteq> set heap"
    using heappop_Some(2) [OF pop] by (simp add: set_remove1_subset)
  ultimately have "(graph_targets g \<union> snd ` set heap'') - insert u visited
                     \<subset> (graph_targets g \<union> snd ` set heap) - visited"
    using uin by blast
  from psubset_card_mono [OF fin this] show ?case
    by simp
qed

declare dijkstra_loop.simps [simp del]

text \<open>
  Path reconstruction: \<open>while cur is not None: path_ids.append(cur); cur = prev.get(cur)\<close>.
  Nothing in the loop bounds it: on a cyclic \<open>prev\<close> it runs forever, which is the
  value \<open>None\<close> here.
\<close>

definition prev_get :: "(int \<rightharpoonup> int option) \<Rightarrow> int \<Rightarrow> int option" where
  "prev_get prev_map cur = (case prev_map cur of None \<Rightarrow> None | Some p \<Rightarrow> p)"

partial_function (option) walk_back ::
  "(int \<rightharpoonup> int option) \<Rightarrow> int option \<Rightarrow> int list \<Rightarrow> int list option" where
  "walk_back prev_map cur path_ids =
     (case cur of
        None \<Rightarrow> Some path_ids
      | Some c \<Rightarrow> walk_back prev_map (prev_get prev_map c) (path_ids @ [c]))"

text \<open>\<open>BusStop.objects.get(pk=i)\<close>\<close>

definition get_stop :: "db \<Rightarrow> int \<Rightarrow> exn + BusStop" where
  "get_stop d i =
     (case filter (\<lambda>s. pk s = i) (bus_stops d) of
        [] \<Rightarrow> Inl DoesNotExist
      | [s] \<Rightarrow> Inr s
      | _ \<Rightarrow> Inl MultipleObjectsReturned)"

text \<open>
  \<open>stops_by_id = {s.id: s for s in BusStop.objects.filter(id__in=path_ids)}\<close>: a later
  row replaces an earlier one under the same key. The entries of \<open>ordered_stops\<close> are
  dicts with the keys id, name, latitude, longitude, written as \<open>BusStop\<close> records;
  \<open>stops_by_id[sid]\<close> raises KeyError on a missing id.
\<close>

definition stops_by_id :: "db \<Rightarrow> int list \<Rightarrow> (int \<rightharpoonup> BusStop)" where
  "stops_by_id d path_ids =
     map_of (rev (map (\<lambda>s. (pk s, s)) (filter (\<lambda>s. pk s \<in> set path_ids) (bus_stops d))))"

fun ordered_stops :: "(int \<rightharpoonup> BusStop) \<Rightarrow> int list \<Rightarrow> exn + BusStop list" where
  "ordered_stops m [] = Inr []"
| "ordered_stops m (sid # ids) =
     (case m sid of
        None \<Rightarrow> Inl KeyError
      | Some s \<Rightarrow>
          (case ordered_stops m ids of
             Inl e \<Rightarrow> Inl e
           | Inr ss \<Rightarrow>
               Inr (\<lparr>pk = sid, name = name s, latitude = latitude s, longitude = longitude s\<rparr>
                      # ss)))"

text \<open>
  Duration aggregation. \<open>dur_map\<close> is filled from the routes whose start is the start
  of some pair and whose end is the end of some pair; a later route replaces an earlier
  one under the same key. The loop stops at the first pair whose \<open>dur_map.get((u, v))\<close>
  is \<open>None\<close>. Nothing in the \<open>try\<close> block raises on these types, so its
  \<open>except\<close> branch has no counterpart.
\<close>

definition dur_map :: "db \<Rightarrow> (int \<times> int) list \<Rightarrow> (int \<times> int \<rightharpoonup> real option)" where
  "dur_map d edge_pairs =
     map_of (rev (map (\<lambda>r. ((start_stop_id r, end_stop_id r), duration r))
       (filter (\<lambda>r. start_stop_id r \<in> fst ` set edge_pairs \<and> end_stop_id r \<in> snd ` set edge_pairs)
          (routes d))))"

fun sum_durations :: "(int \<times> int \<rightharpoonup> real option) \<Rightarrow> (int \<times> int) list \<Rightarrow> real \<Rightarrow> real option" where
  "sum_durations m [] acc = Some acc"
| "sum_durations m ((u, v) # ps) acc =
     (case (case m (u, v) of None \<Rightarrow> None | Some x \<Rightarrow> x) of
        None \<Rightarrow> None
      | Some dval \<Rightarrow> sum_durations m ps (fadd acc dval))"

definition total_duration :: "db \<Rightarrow> int list \<Rightarrow> real option" where
  "total_duration d path_ids =
     (let edge_pairs = zip path_ids (tl path_ids)
      in if edge_pairs = [] then None
         else (case sum_durations (dur_map d edge_pairs) edge_pairs 0 of
                 None \<Rightarrow> None
               | Some acc \<Rightarrow> Some (py_round acc 2)))"

text \<open>
  The result dict; \<open>total_duration_min = None\<close> stands for the key being absent.
\<close>

record path_result =
  path :: "int list"
  total_distance :: real
  stops :: "BusStop list"
  total_duration_min :: "real option"

text \<open>
  The outcome of \<open>dijkstra_shortest_path\<close>: \<open>None\<close> when the reconstruction loop
  never ends, \<open>Some (Inl e)\<close> when exception \<open>e\<close> is raised, \<open>Some (Inr None)\<close>
  when Python's \<open>None\<close> is returned, \<open>Some (Inr (Some r))\<close> for a result dict.
\<close>

definition dijkstra_shortest_path :: "db \<Rightarrow> int \<Rightarrow> int \<Rightarrow> (exn + path_result option) option" where
  "dijkstra_shortest_path d origin_id destination_id =
     (if origin_id = destination_id then
        (case get_stop d origin_id of
           Inl e \<Rightarrow> Some (Inl e)
         | Inr stop \<Rightarrow>
             Some (Inr (Some \<lparr>path = [origin_id], total_distance = 0,
               stops = [\<lparr>pk = pk stop, name = name stop, latitude = latitude stop,
                          longitude = longitude stop\<rparr>],
               total_duration_min = None\<rparr>)))
      else
        (case dijkstra_loop (build_graph d) destination_id
                [origin_id \<mapsto> 0] [origin_id \<mapsto> None] [(0, origin_id)] {} of
           (dist_map, prev_map) \<Rightarrow>
             (case dist_map destination_id of
                None \<Rightarrow> Some (Inr None)
              | Some dd \<Rightarrow>
                  (case walk_back prev_map (Some destination_id) [] of
                     None \<Rightarrow> None
                   | Some appended \<Rightarrow>
                       (let path_ids = rev appended
                        in case ordered_stops (stops_by_id d path_ids) path_ids of
                             Inl e \<Rightarrow> Some (Inl e)
                           | Inr ss \<Rightarrow>
                               Some (Inr (Some \<lparr>path = path_ids, total_distance = dd,
                                 stops = ss,
                                 total_duration_min = total_duration d path_ids\<rparr>)))))))"

subsection \<open>Directed paths\<close>

text \<open>
  The routes that \<open>build_graph\<close> reads: the persisted routes whose two stops exist
  (all routes, under the store's foreign-key constraint).
\<close>

definition graph_routes :: "db \<Rightarrow> Route list" where
  "graph_routes d = map fst (select_related d)"

text \<open>
  A directed path from \<open>u\<close> to \<open>t\<close> as the list of its routes, each starting where the
  one before ends; the sum of their distances as the code accumulates it (from 0.0, in the
  order of the path, in double arithmetic); the stops it visits.
\<close>

fun route_walk :: "Route list \<Rightarrow> int \<Rightarrow> Route list \<Rightarrow> int \<Rightarrow> bool" where
  "route_walk E u [] t \<longleftrightarrow> u = t"
| "route_walk E u (r # rs) t \<longleftrightarrow>
     r \<in> set E \<and> start_stop_id r = u \<and> route_walk E (end_stop_id r) rs t"



text \<open>
  The same on the adjacency lists: a path from \<open>u\<close> as the list of the arcs
  \<open>(next stop, weight)\<close> taken, and the stops that some path from \<open>a\<close> reaches.
\<close>

fun arc_walk :: "graph \<Rightarrow> int \<Rightarrow> (int \<times> real) list \<Rightarrow> int \<Rightarrow> bool" where
  "arc_walk g u [] t \<longleftrightarrow> u = t"
| "arc_walk g u ((v, w) # es) t \<longleftrightarrow> (v, w) \<in> set (graph_get g u) \<and> arc_walk g v es t"

definition reached :: "graph \<Rightarrow> int \<Rightarrow> int \<Rightarrow> bool" where
  "reached g a v \<longleftrightarrow> (\<exists>es. arc_walk g a es v)"

text \<open>Every key of \<open>dist\<close> and every heap entry is a stop reached from the origin.\<close>

definition keys_reached :: "graph \<Rightarrow> int \<Rightarrow> (int \<rightharpoonup> real) \<Rightarrow> (real \<times> int) list \<Rightarrow> bool" where
  "keys_reached g a D H \<longleftrightarrow>
     (\<forall>v d. D v = Some d \<longrightarrow> reached g a v) \<and> (\<forall>(d, u) \<in> set H. reached g a u)"

subsection \<open>The invariant of the main loop\<close>














subsection \<open>Predecessor links\<close>

text \<open>
  A list in which each element's \<open>prev\<close> entry is the next element (the list that the
  reconstruction loop appends to), the same read from the origin's end, and the property
  that every predecessor entry is an arc of the graph.
\<close>

fun backlinked :: "(int \<rightharpoonup> int option) \<Rightarrow> int list \<Rightarrow> bool" where
  "backlinked P (x # y # xs) \<longleftrightarrow> P x = Some (Some y) \<and> backlinked P (y # xs)"
| "backlinked P xs \<longleftrightarrow> True"

fun linked :: "(int \<rightharpoonup> int option) \<Rightarrow> int list \<Rightarrow> bool" where
  "linked P (u # v # xs) \<longleftrightarrow> P v = Some (Some u) \<and> linked P (v # xs)"
| "linked P xs \<longleftrightarrow> True"

definition prev_arcs :: "graph \<Rightarrow> (int \<rightharpoonup> int option) \<Rightarrow> bool" where
  "prev_arcs g P \<longleftrightarrow> (\<forall>v u. P v = Some (Some u) \<longrightarrow> (\<exists>w. (v, w) \<in> set (graph_get g u)))"

subsection \<open>Edge durations\<close>

text \<open>
  The duration recorded for the edge from \<open>u\<close> to \<open>v\<close> (\<open>None\<close> when it is absent
  or there is no such edge), and the constraint \<open>unique_together\<close> of the Route model:
  at most one route per ordered pair of stops.
\<close>

definition edge_duration :: "db \<Rightarrow> int \<Rightarrow> int \<Rightarrow> real option" where
  "edge_duration d u v =
     (case find (\<lambda>r. start_stop_id r = u \<and> end_stop_id r = v) (routes d) of
        None \<Rightarrow> None
      | Some r \<Rightarrow> duration r)"

definition unique_together :: "db \<Rightarrow> bool" where
  "unique_together d \<longleftrightarrow> distinct (map (\<lambda>r. (start_stop_id r, end_stop_id r)) (routes d))"

section \<open>The routing provider (OpenRouteService)\<close>

text \<open>
  A decoded JSON document. An object is the association list of its members;
  \<open>json.loads\<close> yields an int for a number written without fraction or exponent and a
  float otherwise.
\<close>

datatype json =
    JNull
  | JBool bool
  | JInt int
  | JFloat real
  | JStr string
  | JArr "json list"
  | JObj "(string \<times> json) list"

text \<open>
  The POST request that \<open>urlopen\<close> receives: the coordinates are [longitude, latitude]
  pairs, \<open>instructions\<close> is always false.
\<close>

record http_request =
  url :: string
  coordinates :: "(real \<times> real) list"
  authorization :: string
  timeout :: int

text \<open>
  The functions of the C library behind the \<open>math\<close> module and the operator
  \<open>**\<close>. The platform decides how they round, so they are parameters of the model;
  \<open>math_sqrt\<close> is applied to non-negative arguments only.
\<close>

record libm =
  math_sin :: "real \<Rightarrow> real"
  math_cos :: "real \<Rightarrow> real"
  math_sqrt :: "real \<Rightarrow> real"
  math_atan2 :: "real \<Rightarrow> real \<Rightarrow> real"
  math_pow :: "real \<Rightarrow> real \<Rightarrow> real"

text \<open>
  What the code reads from outside: the configured key (\<open>getattr(settings, ..., "")\<close>),
  the network, the parser behind \<open>float(str)\<close>, the C library, the clock and the file
  system.
  \<open>urlopen e k req\<close> is the outcome of the exchange for request \<open>req\<close> when \<open>k\<close>
  requests were issued before it: the decoded body, or the exception raised by
  \<open>urlopen\<close>, \<open>read\<close>, \<open>decode\<close> or \<open>json.loads\<close>. Every effectful function
  takes the list of the requests issued so far and returns it extended.
\<close>

record env =
  OPENROUTESERVICE_API_KEY :: string
  urlopen :: "nat \<Rightarrow> http_request \<Rightarrow> exn + json"
  float_of_str :: "string \<Rightarrow> real option"
  math :: libm
  utc_now :: string
  stats_file_writable :: bool

text \<open>
  Reading a document. Each function is \<open>None\<close> where Python raises (AttributeError,
  TypeError, KeyError, IndexError, ValueError); every caller sits in a
  \<open>try ... except Exception: return None\<close>.
\<close>

fun json_get :: "json \<Rightarrow> string \<Rightarrow> json \<Rightarrow> json option" where
  "json_get (JObj kvs) k dflt = Some (case map_of kvs k of None \<Rightarrow> dflt | Some v \<Rightarrow> v)"
| "json_get _ k dflt = None"

fun json_item :: "json \<Rightarrow> string \<Rightarrow> json option" where
  "json_item (JObj kvs) k = map_of kvs k"
| "json_item _ k = None"

fun json_index0 :: "json \<Rightarrow> json option" where
  "json_index0 (JArr (x # xs)) = Some x"
| "json_index0 (JStr (c # cs)) = Some (JStr [c])"
| "json_index0 _ = None"

fun truthy :: "json \<Rightarrow> bool" where
  "truthy JNull = False"
| "truthy (JBool b) = b"
| "truthy (JInt n) = (n \<noteq> 0)"
| "truthy (JFloat x) = (x \<noteq> 0)"
| "truthy (JStr s) = (s \<noteq> [])"
| "truthy (JArr xs) = (xs \<noteq> [])"
| "truthy (JObj kvs) = (kvs \<noteq> [])"

text \<open>
  \<open>float(x)\<close>: an int is converted to the nearest double and raises OverflowError when
  that is beyond the double range.
\<close>

fun py_float :: "env \<Rightarrow> json \<Rightarrow> real option" where
  "py_float e (JFloat x) = Some x"
| "py_float e (JInt n) =
     (if is_inf (round_double (of_int n)) then None else Some (round_double (of_int n)))"
| "py_float e (JBool b) = Some (if b then 1 else 0)"
| "py_float e (JStr s) = float_of_str e s"
| "py_float e _ = None"

text \<open>\<open>_ors_request\<close>\<close>

definition ors_request ::
  "env \<Rightarrow> http_request list \<Rightarrow> string \<Rightarrow> (real \<times> real) list \<Rightarrow> string \<Rightarrow> int
     \<Rightarrow> (exn + json) \<times> http_request list" where
  "ors_request e sent u coords api_key tmo =
     (let req = \<lparr>url = u, coordinates = coords, authorization = api_key, timeout = tmo\<rparr>
      in (urlopen e (length sent) req, sent @ [req]))"

record ors_result =
  geojson :: json
  distance_km :: real
  duration_min :: real

text \<open>The second \<open>try\<close> block of \<open>ors_directions_for_stops\<close>.\<close>

definition parse_summary :: "env \<Rightarrow> json \<Rightarrow> ors_result option" where
  "parse_summary e data =
     Option.bind (json_get data ''features'' (JArr [])) (\<lambda>features.
       if \<not> truthy features then None
       else
         Option.bind (json_index0 features) (\<lambda>feature.
         Option.bind (json_get feature ''properties'' (JObj [])) (\<lambda>props.
         Option.bind (json_get props ''summary'' (JObj [])) (\<lambda>summary.
         Option.bind (json_get summary ''distance'' (JFloat 0)) (\<lambda>dv.
         Option.bind (py_float e dv) (\<lambda>distance_m.
         Option.bind (json_get summary ''duration'' (JFloat 0)) (\<lambda>tv.
         Option.bind (py_float e tv) (\<lambda>duration_s.
           Some \<lparr>geojson = data,
                 distance_km = py_round (fdiv distance_m 1000) 3,
                 duration_min = py_round (fdiv duration_s 60) 1\<rparr>))))))))"

text \<open>
  \<open>ors_directions_for_stops\<close>: the first \<open>try\<close> catches HTTPError and URLError only;
  any other exception of the exchange leaves the function.
\<close>

definition ors_directions_for_stops ::
  "env \<Rightarrow> http_request list \<Rightarrow> BusStop list \<Rightarrow> string
     \<Rightarrow> (exn + ors_result option) \<times> http_request list" where
  "ors_directions_for_stops e sent stop_dicts profile =
     (let api_key = OPENROUTESERVICE_API_KEY e
      in if api_key = [] \<or> stop_dicts = [] \<or> length stop_dicts < 2 then (Inr None, sent)
         else
           (let coords = map (\<lambda>s. (longitude s, latitude s)) stop_dicts;
                u = ''https://api.openrouteservice.org/v2/directions/'' @ profile @ ''/geojson''
            in case ors_request e sent u coords api_key 20 of
                 (Inl HTTPError, sent') \<Rightarrow> (Inr None, sent')
               | (Inl URLError, sent') \<Rightarrow> (Inr None, sent')
               | (Inl ex, sent') \<Rightarrow> (Inl ex, sent')
               | (Inr data, sent') \<Rightarrow> (Inr (parse_summary e data), sent')))"

section \<open>The shortest-route endpoint (transit/views.py)\<close>

text \<open>
  The query parameters arrive as the outcome of \<open>int(request.query_params.get(...))\<close>:
  \<open>None\<close> when it raises TypeError or ValueError. An exception that leaves the view
  is answered by the framework with status 500 (\<open>ServerError\<close>). The response body of
  a found path is the result dict, with the key \<open>ors\<close> when the provider answered.
\<close>

datatype body = Detail string | Found path_result "ors_result option"

datatype response = Response nat body | ServerError exn

definition shortest_route ::
  "env \<Rightarrow> db \<Rightarrow> http_request list \<Rightarrow> int option \<Rightarrow> int option
     \<Rightarrow> (response \<times> http_request list) option" where
  "shortest_route e d sent origin destination =
     (case (origin, destination) of
        (Some origin_id, Some destination_id) \<Rightarrow>
          (case dijkstra_shortest_path d origin_id destination_id of
             None \<Rightarrow> None
           | Some (Inl ex) \<Rightarrow> Some (ServerError ex, sent)
           | Some (Inr None) \<Rightarrow>
               Some (Response 404 (Detail ''No path found between the selected stops''), sent)
           | Some (Inr (Some result)) \<Rightarrow>
               (case ors_directions_for_stops e sent (stops result) ''driving-car'' of
                  (Inl ex, sent') \<Rightarrow> Some (ServerError ex, sent')
                | (Inr ors, sent') \<Rightarrow> Some (Response 200 (Found result ors), sent')))
      | _ \<Rightarrow>
          Some (Response 400 (Detail ''origin and destination are required integer ids''), sent))"

section \<open>The batch commands (transit/management/commands)\<close>

text \<open>
  The command-line options of both commands (\<open>build_ors_matrix\<close> has no
  \<open>--skip-existing\<close>). \<open>time.sleep\<close> and the progress messages change no data and
  are left out.
\<close>

record opts =
  sleep :: real
  limit :: int
  dry :: bool
  skip_existing :: bool
  timeout_s :: real
  retries :: int

text \<open>\<open>int(x)\<close> on a float truncates towards zero.\<close>

definition py_int :: "real \<Rightarrow> int" where
  "py_int x = (if 0 \<le> x then \<lfloor>x\<rfloor> else \<lceil>x\<rceil>)"

text \<open>
  The second \<open>try\<close> block of \<open>_ors_distance_duration\<close> and of \<open>ors_pair\<close>
  (the two functions have the same body).
\<close>

definition parse_pair :: "env \<Rightarrow> json \<Rightarrow> (real \<times> real) option" where
  "parse_pair e res =
     Option.bind (json_get res ''features'' (JArr [])) (\<lambda>features.
       if \<not> truthy features then None
       else
         Option.bind (json_index0 features) (\<lambda>feature.
         Option.bind (json_item feature ''properties'') (\<lambda>props.
         Option.bind (json_get props ''summary'' (JObj [])) (\<lambda>summary.
         Option.bind (json_get summary ''distance'' (JFloat 0)) (\<lambda>dv.
         Option.bind (py_float e dv) (\<lambda>distance_m.
         Option.bind (json_get summary ''duration'' (JFloat 0)) (\<lambda>tv.
         Option.bind (py_float e tv) (\<lambda>duration_s.
           Some (fdiv distance_m 1000, fdiv duration_s 60)))))))))"

text \<open>\<open>_ors_distance_duration\<close> (refresh_route_distances_with_ors.py)\<close>

definition ors_distance_duration ::
  "env \<Rightarrow> http_request list \<Rightarrow> real \<Rightarrow> real \<Rightarrow> real \<Rightarrow> real \<Rightarrow> string \<Rightarrow> int
     \<Rightarrow> (exn + (real \<times> real) option) \<times> http_request list" where
  "ors_distance_duration e sent lon1 lat1 lon2 lat2 api_key tmo =
     (let req = \<lparr>url = ''https://api.openrouteservice.org/v2/directions/driving-car/geojson'',
                 coordinates = [(lon1, lat1), (lon2, lat2)],
                 authorization = api_key, timeout = tmo\<rparr>;
          sent' = sent @ [req]
      in case urlopen e (length sent) req of
           Inl HTTPError \<Rightarrow> (Inr None, sent')
         | Inl URLError \<Rightarrow> (Inr None, sent')
         | Inl SocketTimeout \<Rightarrow> (Inr None, sent')
         | Inl SSLError \<Rightarrow> (Inr None, sent')
         | Inl ex \<Rightarrow> (Inl ex, sent')
         | Inr res \<Rightarrow> (Inr (parse_pair e res), sent'))"


text \<open>
  The retry loop that both commands run for each item:
  \<open>while attempts <= retries and pair is None: pair = call(); attempts += 1\<close>.
  An exception of the call leaves the loop.
\<close>

function retry_loop ::
  "(http_request list \<Rightarrow> (exn + (real \<times> real) option) \<times> http_request list) \<Rightarrow> int \<Rightarrow> int
     \<Rightarrow> (real \<times> real) option \<Rightarrow> http_request list
     \<Rightarrow> (exn + (real \<times> real) option) \<times> http_request list" where
  "retry_loop call n attempts pair sent =
     (if attempts \<le> n \<and> pair = None then
        (case call sent of
           (Inl ex, sent') \<Rightarrow> (Inl ex, sent')
         | (Inr p, sent') \<Rightarrow> retry_loop call n (attempts + 1) p sent')
      else (Inr pair, sent))"
  by pat_completeness auto
termination
  by (relation "measure (\<lambda>(call, n, attempts, pair, sent). nat (n + 1 - attempts))") auto

subsection \<open>refresh_route_distances_with_ors\<close>

record run_stats =
  updated :: int
  skipped :: int
  timestamp :: string

text \<open>\<open>r.save(update_fields=["distance", "duration"])\<close>: an UPDATE of the row with \<open>r\<close>'s key.\<close>

definition save_route :: "Route \<Rightarrow> real \<Rightarrow> real \<Rightarrow> Route list \<Rightarrow> Route list" where
  "save_route r d_km dur_min table =
     map (\<lambda>x. if route_pk x = route_pk r
               then x\<lparr>distance := d_km, duration := Some dur_min\<rparr> else x) table"

text \<open>
  The loop \<open>for idx, r in enumerate(qs, start=1)\<close> over the rows fetched when the loop
  starts, on the table of routes, the two counters and the requests sent. The first
  component of the result is the exception that ended the loop, if any.
\<close>

type_synonym refresh_state = "Route list \<times> int \<times> int \<times> http_request list"

fun refresh_loop ::
  "env \<Rightarrow> opts \<Rightarrow> string \<Rightarrow> (Route \<times> BusStop \<times> BusStop) list \<Rightarrow> refresh_state
     \<Rightarrow> exn option \<times> refresh_state" where
  "refresh_loop e os api_key [] st = (None, st)"
| "refresh_loop e os api_key ((r, start_stop, end_stop) # qs) (table, n_updated, n_skipped, sent) =
     (case retry_loop
             (\<lambda>s. ors_distance_duration e s (longitude start_stop) (latitude start_stop)
                     (longitude end_stop) (latitude end_stop) api_key (py_int (timeout_s os)))
             (max 0 (retries os)) 0 None sent of
        (Inl ex, sent') \<Rightarrow> (Some ex, (table, n_updated, n_skipped, sent'))
      | (Inr None, sent') \<Rightarrow>
          refresh_loop e os api_key qs (table, n_updated, n_skipped + 1, sent')
      | (Inr (Some (d_km, dur_min)), sent') \<Rightarrow>
          refresh_loop e os api_key qs
            (if dry os then table else save_route r d_km dur_min table,
             n_updated + 1, n_skipped, sent'))"

text \<open>The rows that the command iterates over.\<close>

definition refresh_queryset :: "opts \<Rightarrow> db \<Rightarrow> (Route \<times> BusStop \<times> BusStop) list" where
  "refresh_queryset os d =
     (let qs = select_related d;
          qs = (if skip_existing os then filter (\<lambda>(r, s, t). distance r \<le> 0) qs else qs)
      in if 0 < limit os then take (nat (limit os)) qs else qs)"

record refresh_outcome =
  raised :: "exn option"
  db_after :: db
  sent_after :: "http_request list"
  stats_after :: "run_stats option"

text \<open>
  \<open>Command.handle\<close>: \<open>stats_file\<close> is the content of transit/data/ors_stats.json
  before the run (\<open>None\<close>: no such file). An exception while the file is written is
  swallowed by \<open>except Exception: pass\<close>.
\<close>

definition refresh_handle ::
  "env \<Rightarrow> opts \<Rightarrow> db \<Rightarrow> http_request list \<Rightarrow> run_stats option \<Rightarrow> refresh_outcome" where
  "refresh_handle e os d sent stats_file =
     (let api_key = OPENROUTESERVICE_API_KEY e
      in if api_key = [] then
           \<lparr>raised = None, db_after = d, sent_after = sent, stats_after = stats_file\<rparr>
         else
           (case refresh_loop e os api_key (refresh_queryset os d) (routes d, 0, 0, sent) of
              (Some ex, (table, n_updated, n_skipped, sent')) \<Rightarrow>
                \<lparr>raised = Some ex, db_after = d\<lparr>routes := table\<rparr>, sent_after = sent',
                 stats_after = stats_file\<rparr>
            | (None, (table, n_updated, n_skipped, sent')) \<Rightarrow>
                \<lparr>raised = None, db_after = d\<lparr>routes := table\<rparr>, sent_after = sent',
                 stats_after =
                   (if stats_file_writable e
                    then Some \<lparr>updated = n_updated, skipped = n_skipped, timestamp = utc_now e\<rparr>
                    else stats_file)\<rparr>))"

text \<open>
  For the statement of what the counters count: the outcome of the retry loop for each row
  in turn (\<open>Some\<close> when the provider answered within the retry budget, \<open>None\<close> when
  it stayed unavailable), up to the first row whose loop an exception left.
\<close>

fun edge_outcomes ::
  "env \<Rightarrow> opts \<Rightarrow> string \<Rightarrow> (Route \<times> BusStop \<times> BusStop) list \<Rightarrow> http_request list
     \<Rightarrow> (real \<times> real) option list" where
  "edge_outcomes e os api_key [] sent = []"
| "edge_outcomes e os api_key ((r, start_stop, end_stop) # qs) sent =
     (case retry_loop
             (\<lambda>s. ors_distance_duration e s (longitude start_stop) (latitude start_stop)
                     (longitude end_stop) (latitude end_stop) api_key (py_int (timeout_s os)))
             (max 0 (retries os)) 0 None sent of
        (Inl ex, sent') \<Rightarrow> []
      | (Inr p, sent') \<Rightarrow> p # edge_outcomes e os api_key qs sent')"

subsection \<open>build_ors_matrix\<close>














section \<open>Example data\<close>

text \<open>
  A C library whose functions return the double nearest to the exact value; \<open>atan2\<close>
  is the angle of the point \<open>(x, y)\<close>.
\<close>

definition atan2 :: "real \<Rightarrow> real \<Rightarrow> real" where
  "atan2 y x =
     (if 0 < x then arctan (y / x)
      else if x < 0 then (if 0 \<le> y then arctan (y / x) + pi else arctan (y / x) - pi)
      else if 0 < y then pi / 2
      else if y < 0 then - (pi / 2)
      else 0)"

definition rounded_libm :: libm where
  "rounded_libm =
     \<lparr>math_sin = (\<lambda>x. round_double (sin x)),
      math_cos = (\<lambda>x. round_double (cos x)),
      math_sqrt = (\<lambda>x. round_double (sqrt x)),
      math_atan2 = (\<lambda>y x. round_double (atan2 y x)),
      math_pow = (\<lambda>x y. round_double (if y = of_int \<lfloor>y\<rfloor> then x powi \<lfloor>y\<rfloor> else x powr y))\<rparr>"

text \<open>
  The stops A, B, C, D of transit/tests.py with the edges of
  \<open>test_shortest_path_basic\<close>: A to B (1.0), B to C (1.0), A to C (5.0).
\<close>

definition stop_A :: BusStop where
  "stop_A = \<lparr>pk = 1, name = ''A'', latitude = 12, longitude = 75\<rparr>"

definition stop_B :: BusStop where
  "stop_B = \<lparr>pk = 2, name = ''B'', latitude = 12001 / 1000, longitude = 75001 / 1000\<rparr>"

definition stop_C :: BusStop where
  "stop_C = \<lparr>pk = 3, name = ''C'', latitude = 12002 / 1000, longitude = 75002 / 1000\<rparr>"

definition stop_D :: BusStop where
  "stop_D = \<lparr>pk = 4, name = ''D'', latitude = 12003 / 1000, longitude = 75003 / 1000\<rparr>"

definition test_db :: db where
  "test_db =
     \<lparr>bus_stops = [stop_A, stop_B, stop_C, stop_D],
      routes =
        [\<lparr>route_pk = 1, start_stop_id = 1, end_stop_id = 2, distance = 1, duration = None\<rparr>,
         \<lparr>route_pk = 2, start_stop_id = 2, end_stop_id = 3, distance = 1, duration = None\<rparr>,
         \<lparr>route_pk = 3, start_stop_id = 1, end_stop_id = 3, distance = 5, duration = None\<rparr>]\<rparr>"

text \<open>An environment with a key configured whose network times out while the body is read.\<close>

definition timeout_env :: env where
  "timeout_env =
     \<lparr>OPENROUTESERVICE_API_KEY = ''key'', urlopen = (\<lambda>k req. Inl SocketTimeout),
      float_of_str = (\<lambda>s. None), math = rounded_libm,
      utc_now = ''2024-01-01T00:00:00+00:00'', stats_file_writable = True\<rparr>"

text \<open>An environment with no key configured; its network would answer with an empty object.\<close>

definition no_key_env :: env where
  "no_key_env =
     \<lparr>OPENROUTESERVICE_API_KEY = [], urlopen = (\<lambda>k req. Inr (JObj [])),
      float_of_str = (\<lambda>s. None), math = rounded_libm,
      utc_now = ''2024-01-01T00:00:00+00:00'', stats_file_writable = True\<rparr>"

text \<open>
  An environment with a key configured whose network answers every request with a route
  of 2000 m and 120 s.
\<close>

definition route_document :: json where
  "route_document =
     JObj [(''features'',
       JArr [JObj [(''properties'',
         JObj [(''summary'', JObj [(''distance'', JFloat 2000), (''duration'', JInt 120)])])]])]"

definition answering_env :: env where
  "answering_env =
     \<lparr>OPENROUTESERVICE_API_KEY = ''key'', urlopen = (\<lambda>k req. Inr route_document),
      float_of_str = (\<lambda>s. None), math = rounded_libm,
      utc_now = ''2024-01-01T00:00:00+00:00'', stats_file_writable = True\<rparr>"

text \<open>
  An environment with a key configured whose network answers the first request with that
  route and every later one with a body that \<open>json.loads\<close> cannot parse.
\<close>

definition garbled_env :: env where
  "garbled_env =
     \<lparr>OPENROUTESERVICE_API_KEY = ''key'',
      urlopen = (\<lambda>k req. if k = 0 then Inr route_document else Inl JSONDecodeError),
      float_of_str = (\<lambda>s. None), math = rounded_libm,
      utc_now = ''2024-01-01T00:00:00+00:00'', stats_file_writable = True\<rparr>"

text \<open>Statistics left by an earlier run.\<close>

definition old_stats :: run_stats where
  "old_stats = \<lparr>updated = 7, skipped = 1, timestamp = ''2023-06-01T00:00:00+00:00''\<rparr>"

text \<open>Options as the command line leaves them by default, and the same with \<open>--dry\<close>.\<close>

definition default_opts :: opts where
  "default_opts =
     \<lparr>sleep = 2 / 10, limit = 0, dry = False, skip_existing = False, timeout_s = 10,
      retries = 1\<rparr>"

definition dry_opts :: opts where
  "dry_opts = default_opts\<lparr>dry := True\<rparr>"







text \<open>
  The stops and edges of the test with durations on the two short edges: 0.251953125
  minutes (129 / 512) and 2 minutes.
\<close>

definition timed_db :: db where
  "timed_db =
     \<lparr>bus_stops = [stop_A, stop_B, stop_C, stop_D],
      routes =
        [\<lparr>route_pk = 1, start_stop_id = 1, end_stop_id = 2, distance = 1,
          duration = Some (129 / 512)\<rparr>,
         \<lparr>route_pk = 2, start_stop_id = 2, end_stop_id = 3, distance = 1, duration = Some 2\<rparr>,
         \<lparr>route_pk = 3, start_stop_id = 1, end_stop_id = 3, distance = 5, duration = None\<rparr>]\<rparr>"








section \<open>Evaluation of the example\<close>

lemma build_graph_test_db:
  "build_graph test_db = [(1, [(2, 1), (3, 5)]), (2, [(3, 1)])]"
  by (simp add: test_db_def build_graph_def select_related_def
      stop_A_def stop_B_def stop_C_def stop_D_def)

lemma dijkstra_test_db_A_C:
  "dijkstra_shortest_path test_db 1 3 =
     Some (Inr (Some \<lparr>path = [1, 2, 3], total_distance = 2,
       stops = [stop_A, stop_B, stop_C], total_duration_min = None\<rparr>))"
proof -
  have loop: "dijkstra_loop (build_graph test_db) 3 [1 \<mapsto> 0] [1 \<mapsto> None] [(0, 1)] {}
                = ([1 \<mapsto> 0, 2 \<mapsto> 1, 3 \<mapsto> 2], [1 \<mapsto> None, 2 \<mapsto> Some 1, 3 \<mapsto> Some 2])"
    by (simp add: dijkstra_loop.simps build_graph_test_db graph_get_def Let_def heappush_def
        fadd_def not_is_inf_small)
  have walk: "walk_back [1 \<mapsto> None, 2 \<mapsto> Some 1, 3 \<mapsto> Some 2] (Some 3) [] = Some [3, 2, 1]"
    by (simp add: walk_back.simps prev_get_def)
  have stops: "ordered_stops (stops_by_id test_db [1, 2, 3]) [1, 2, 3]
                 = Inr [stop_A, stop_B, stop_C]"
    by (simp add: stops_by_id_def test_db_def stop_A_def stop_B_def stop_C_def stop_D_def)
  have dur: "total_duration test_db [1, 2, 3] = None"
    by (simp add: total_duration_def dur_map_def test_db_def)
  show ?thesis
    by (simp add: dijkstra_shortest_path_def loop walk stops dur Let_def del: ordered_stops.simps)
qed

section \<open>The degenerate query\<close>

text \<open>
  C8. For a stop \<open>x\<close> of the store (exactly one row has this id),
  \<open>dijkstra_shortest_path(x, x)\<close> returns the one-node path \<open>[x]\<close> with total distance 0
  and the stop's own record, whatever the table of routes holds: the result is the same
  for every replacement \<open>rs\<close> of the routes.
\<close>

theorem same_stop_one_node_path:
  assumes "filter (\<lambda>s. pk s = x) (bus_stops d) = [s]"
  shows "dijkstra_shortest_path (d\<lparr>routes := rs\<rparr>) x x =
           Some (Inr (Some \<lparr>path = [x], total_distance = 0,
             stops = [\<lparr>pk = pk s, name = name s, latitude = latitude s,
                        longitude = longitude s\<rparr>],
             total_duration_min = None\<rparr>))"
  using assms by (simp add: dijkstra_shortest_path_def get_stop_def)

theorem same_stop_one_node_path_witness:
  "filter (\<lambda>s. pk s = 1) (bus_stops test_db) = [stop_A] \<and>
   dijkstra_shortest_path (test_db\<lparr>routes := []\<rparr>) 1 1 =
     Some (Inr (Some \<lparr>path = [1], total_distance = 0, stops = [stop_A],
       total_duration_min = None\<rparr>))"
proof -
  have h: "filter (\<lambda>s. pk s = 1) (bus_stops test_db) = [stop_A]"
    by (simp add: test_db_def stop_A_def stop_B_def stop_C_def stop_D_def)
  from same_stop_one_node_path [OF h, of "[]"] h show ?thesis
    by (simp add: stop_A_def)
qed

text \<open>
  C9. For an id \<open>x\<close> that no stop of the store has, \<open>dijkstra_shortest_path(x, x)\<close>
  raises DoesNotExist (from \<open>BusStop.objects.get\<close>), and the endpoint, which does not
  catch it, answers with a server error instead of the 404 of a missing path.
\<close>

theorem unknown_stop_same_ids_raises:
  assumes "\<forall>s \<in> set (bus_stops d). pk s \<noteq> x"
  shows "dijkstra_shortest_path d x x = Some (Inl DoesNotExist) \<and>
         shortest_route e d sent (Some x) (Some x) = Some (ServerError DoesNotExist, sent)"
proof -
  from assms have "filter (\<lambda>s. pk s = x) (bus_stops d) = []"
    by (simp add: filter_empty_conv)
  then have "dijkstra_shortest_path d x x = Some (Inl DoesNotExist)"
    by (simp add: dijkstra_shortest_path_def get_stop_def)
  then show ?thesis
    by (simp add: shortest_route_def)
qed

theorem unknown_stop_same_ids_raises_witness:
  "(\<forall>s \<in> set (bus_stops test_db). pk s \<noteq> 9) = True \<and>
   dijkstra_shortest_path test_db 9 9 = Some (Inl DoesNotExist) \<and>
   shortest_route no_key_env test_db [] (Some 9) (Some 9) = Some (ServerError DoesNotExist, [])"
proof -
  have h: "\<forall>s \<in> set (bus_stops test_db). pk s \<noteq> 9"
    by (simp add: test_db_def stop_A_def stop_B_def stop_C_def stop_D_def)
  from unknown_stop_same_ids_raises [OF h, of no_key_env "[]"] h show ?thesis
    by simp
qed

section \<open>The provider\<close>

text \<open>
  C6. With no key configured, \<open>ors_directions_for_stops\<close> returns \<open>None\<close> and the
  list of requests sent is the one it was given: \<open>_ors_request\<close> is not called.
\<close>

theorem no_key_no_request:
  assumes "OPENROUTESERVICE_API_KEY e = []"
  shows "ors_directions_for_stops e sent stop_dicts profile = (Inr None, sent)"
  using assms by (simp add: ors_directions_for_stops_def)

theorem no_key_no_request_witness:
  "OPENROUTESERVICE_API_KEY no_key_env = [] \<and>
   ors_directions_for_stops no_key_env [] [stop_A, stop_B] ''driving-car'' = (Inr None, [])"
proof -
  have h: "OPENROUTESERVICE_API_KEY no_key_env = []"
    by (simp add: no_key_env_def)
  from no_key_no_request [OF h, of "[]" "[stop_A, stop_B]" "''driving-car''"] h show ?thesis
    by simp
qed

text \<open>
  C5. The claim fails on the code. With a key configured, a timeout while the response is
  read (socket.timeout, which \<open>_ors_distance_duration\<close> and \<open>ors_pair\<close> catch and
  \<open>ors_directions_for_stops\<close> does not) leaves \<open>ors_directions_for_stops\<close> as an
  exception, and the query from A to C, whose path was found, is answered with a server
  error.
\<close>

theorem enrichment_timeout_aborts_query:
  "ors_directions_for_stops timeout_env [] [stop_A, stop_B, stop_C] ''driving-car''
     = (Inl SocketTimeout,
        [\<lparr>url = ''https://api.openrouteservice.org/v2/directions/driving-car/geojson'',
          coordinates = [(75, 12), (75001 / 1000, 12001 / 1000), (75002 / 1000, 12002 / 1000)],
          authorization = ''key'', timeout = 20\<rparr>]) \<and>
   (\<exists>sent'. shortest_route timeout_env test_db [] (Some 1) (Some 3)
              = Some (ServerError SocketTimeout, sent'))"
proof -
  have a: "ors_directions_for_stops timeout_env [] [stop_A, stop_B, stop_C] ''driving-car''
     = (Inl SocketTimeout,
        [\<lparr>url = ''https://api.openrouteservice.org/v2/directions/driving-car/geojson'',
          coordinates = [(75, 12), (75001 / 1000, 12001 / 1000), (75002 / 1000, 12002 / 1000)],
          authorization = ''key'', timeout = 20\<rparr>])"
    by (simp add: ors_directions_for_stops_def ors_request_def timeout_env_def
        stop_A_def stop_B_def stop_C_def)
  show ?thesis
    by (simp add: a shortest_route_def dijkstra_test_db_A_C)
qed

section \<open>The edge-distance refresher\<close>

declare retry_loop.simps [simp del]

lemma retry_loop_unavailable:
  "(\<And>s. fst (call s) = Inr None) \<Longrightarrow> pair = None
   \<Longrightarrow> fst (retry_loop call n attempts pair sent) = Inr None"
proof (induction call n attempts pair sent rule: retry_loop.induct)
  case (1 call n attempts pair sent)
  show ?case
  proof (cases "attempts \<le> n")
    case True
    obtain sent' where c: "call sent = (Inr None, sent')"
      using "1.prems"(1) [of sent] by (cases "call sent") auto
    have "fst (retry_loop call n (attempts + 1) None sent') = Inr None"
      using "1.IH" [of "Inr None" sent' None] True "1.prems" c by simp
    then show ?thesis
      using True "1.prems" c by (simp add: retry_loop.simps [of call n attempts])
  next
    case False
    then show ?thesis
      using "1.prems" by (simp add: retry_loop.simps [of call n attempts])
  qed
qed

text \<open>When every call fails, the loop makes all \<open>n + 1\<close> attempts.\<close>

lemma retry_loop_requests:
  "(\<And>s. fst (call s) = Inr None) \<Longrightarrow> (\<And>s. length (snd (call s)) = Suc (length s))
   \<Longrightarrow> pair = None
   \<Longrightarrow> length (snd (retry_loop call n attempts pair sent))
         = length sent + nat (n + 1 - attempts)"
proof (induction call n attempts pair sent rule: retry_loop.induct)
  case (1 call n attempts pair sent)
  show ?case
  proof (cases "attempts \<le> n")
    case True
    obtain sent' where c: "call sent = (Inr None, sent')"
      using "1.prems"(1) [of sent] by (cases "call sent") auto
    have l: "length sent' = Suc (length sent)"
      using "1.prems"(2) [of sent] c by simp
    have "length (snd (retry_loop call n (attempts + 1) None sent'))
            = length sent' + nat (n + 1 - (attempts + 1))"
      using "1.IH" [of "Inr None" sent' None] True "1.prems" c by simp
    then show ?thesis
      using True "1.prems" c l
      by (simp add: retry_loop.simps [of call n attempts] nat_diff_distrib)
  next
    case False
    then show ?thesis
      using "1.prems" by (simp add: retry_loop.simps [of call n attempts])
  qed
qed

lemma ors_distance_duration_one_request:
  "length (snd (ors_distance_duration e s lon1 lat1 lon2 lat2 api_key tmo)) = Suc (length s)"
  by (simp add: ors_distance_duration_def Let_def split: sum.splits exn.splits)

lemma refresh_loop_all_unavailable:
  assumes "\<And>sent lon1 lat1 lon2 lat2 tmo.
             fst (ors_distance_duration e sent lon1 lat1 lon2 lat2 api_key tmo) = Inr None"
  shows "\<exists>sent'. refresh_loop e os api_key qs (table, n_updated, n_skipped, sent)
           = (None, (table, n_updated, n_skipped + int (length qs), sent'))
         \<and> length sent' = length sent + length qs * nat (max 0 (retries os) + 1)"
proof (induction qs arbitrary: n_skipped sent)
  case Nil
  show ?case by simp
next
  case (Cons row qs)
  obtain r a b where row: "row = (r, a, b)" by (cases row)
  let ?call = "\<lambda>s. ors_distance_duration e s (longitude a) (latitude a)
                     (longitude b) (latitude b) api_key (py_int (timeout_s os))"
  have un: "\<And>s. fst (?call s) = Inr None" by (rule assms)
  have one: "\<And>s. length (snd (?call s)) = Suc (length s)"
    by (rule ors_distance_duration_one_request)
  obtain sent1 where rl: "retry_loop ?call (max 0 (retries os)) 0 None sent = (Inr None, sent1)"
    using retry_loop_unavailable [of ?call None "max 0 (retries os)" 0 sent, OF un]
    by (cases "retry_loop ?call (max 0 (retries os)) 0 None sent") auto
  have l1: "length sent1 = length sent + nat (max 0 (retries os) + 1)"
    using retry_loop_requests [of ?call None "max 0 (retries os)" 0 sent, OF un one] rl by simp
  from Cons.IH [of "n_skipped + 1" sent1] obtain sent' where
    rest: "refresh_loop e os api_key qs (table, n_updated, n_skipped + 1, sent1)
             = (None, (table, n_updated, n_skipped + 1 + int (length qs), sent'))"
    and l2: "length sent' = length sent1 + length qs * nat (max 0 (retries os) + 1)"
    by blast
  show ?case
    using rl rest l1 l2 by (auto simp: row algebra_simps)
qed

text \<open>
  C7. In a run with a key configured in which every call of the provider returns
  \<open>None\<close>, no exception is raised, the store is left as it was, the statistics written
  are \<open>updated = 0\<close> and \<open>skipped\<close> = the number of rows processed, and each row
  cost the full budget of \<open>retries + 1\<close> requests. (This holds with and without
  \<open>--dry\<close>; the file keeps its old content only when it cannot be written.)
\<close>

theorem refresh_provider_down:
  assumes key: "OPENROUTESERVICE_API_KEY e \<noteq> []"
    and down: "\<And>sent lon1 lat1 lon2 lat2 tmo.
      fst (ors_distance_duration e sent lon1 lat1 lon2 lat2 (OPENROUTESERVICE_API_KEY e) tmo)
        = Inr None"
  shows "raised (refresh_handle e os d sent stats_file) = None \<and>
         db_after (refresh_handle e os d sent stats_file) = d \<and>
         stats_after (refresh_handle e os d sent stats_file) =
           (if stats_file_writable e
            then Some \<lparr>updated = 0, skipped = int (length (refresh_queryset os d)),
                        timestamp = utc_now e\<rparr>
            else stats_file) \<and>
         length (sent_after (refresh_handle e os d sent stats_file)) =
           length sent + length (refresh_queryset os d) * nat (max 0 (retries os) + 1)"
proof -
  from refresh_loop_all_unavailable [of e "OPENROUTESERVICE_API_KEY e" os
      "refresh_queryset os d" "routes d" 0 0 sent, OF down]
  obtain sent' where
    run: "refresh_loop e os (OPENROUTESERVICE_API_KEY e) (refresh_queryset os d)
            (routes d, 0, 0, sent)
          = (None, (routes d, 0, int (length (refresh_queryset os d)), sent'))"
    and len: "length sent' =
          length sent + length (refresh_queryset os d) * nat (max 0 (retries os) + 1)"
    by auto
  show ?thesis
    using key by (simp add: refresh_handle_def run len)
qed

theorem refresh_provider_down_witness:
  "OPENROUTESERVICE_API_KEY timeout_env \<noteq> [] \<and>
   raised (refresh_handle timeout_env default_opts test_db [] None) = None \<and>
   db_after (refresh_handle timeout_env default_opts test_db [] None) = test_db \<and>
   stats_after (refresh_handle timeout_env default_opts test_db [] None) =
     Some \<lparr>updated = 0, skipped = 3, timestamp = ''2024-01-01T00:00:00+00:00''\<rparr> \<and>
   length (sent_after (refresh_handle timeout_env default_opts test_db [] None)) = 6"
proof -
  have key: "OPENROUTESERVICE_API_KEY timeout_env \<noteq> []"
    by (simp add: timeout_env_def)
  have down: "\<And>sent lon1 lat1 lon2 lat2 tmo.
      fst (ors_distance_duration timeout_env sent lon1 lat1 lon2 lat2
             (OPENROUTESERVICE_API_KEY timeout_env) tmo) = Inr None"
    by (simp add: ors_distance_duration_def timeout_env_def)
  have qs: "length (refresh_queryset default_opts test_db) = 3"
    by (simp add: refresh_queryset_def default_opts_def select_related_def test_db_def
        stop_A_def stop_B_def stop_C_def stop_D_def)
  have e: "stats_file_writable timeout_env" "utc_now timeout_env = ''2024-01-01T00:00:00+00:00''"
    by (simp_all add: timeout_env_def)
  have r: "nat (max 0 (retries default_opts) + 1) = 2"
    by (simp add: default_opts_def)
  from refresh_provider_down [of timeout_env default_opts test_db "[]" None, OF key down]
  show ?thesis
    using key by (simp add: qs e r)
qed

lemma refresh_loop_counts:
  "refresh_loop e os api_key qs (table, n_updated, n_skipped, sent) = (ex, (table', u', s', sent'))
   \<Longrightarrow> u' = n_updated + int (length (filter (\<lambda>p. \<not> Option.is_none p) (edge_outcomes e os api_key qs sent))) \<and>
       s' = n_skipped + int (length (filter Option.is_none (edge_outcomes e os api_key qs sent))) \<and>
       (dry os \<longrightarrow> table' = table) \<and>
       (ex = None \<longrightarrow> length (edge_outcomes e os api_key qs sent) = length qs)"
proof (induction qs arbitrary: table n_updated n_skipped sent)
  case Nil
  then show ?case by simp
next
  case (Cons row qs)
  obtain r a b where row: "row = (r, a, b)" by (cases row)
  let ?call = "\<lambda>s. ors_distance_duration e s (longitude a) (latitude a)
                     (longitude b) (latitude b) api_key (py_int (timeout_s os))"
  obtain res sent1 where rl: "retry_loop ?call (max 0 (retries os)) 0 None sent = (res, sent1)"
    by (cases "retry_loop ?call (max 0 (retries os)) 0 None sent")
  show ?case
  proof (cases res)
    case (Inl x)
    with Cons.prems rl row show ?thesis by auto
  next
    case (Inr p)
    show ?thesis
    proof (cases p)
      case None
      with Cons.prems rl row Inr
      have "refresh_loop e os api_key qs (table, n_updated, n_skipped + 1, sent1)
              = (ex, (table', u', s', sent'))"
        by simp
      from Cons.IH [OF this] show ?thesis
        using rl row Inr None by simp
    next
      case (Some dd)
      obtain d_km dur_min where dd: "dd = (d_km, dur_min)" by (cases dd)
      from Cons.prems rl row Inr Some dd
      have "refresh_loop e os api_key qs
              (if dry os then table else save_route r d_km dur_min table,
               n_updated + 1, n_skipped, sent1)
              = (ex, (table', u', s', sent'))"
        by simp
      from Cons.IH [OF this] show ?thesis
        using rl row Inr Some dd by simp
    qed
  qed
qed

text \<open>
  C10, amended. In a run with \<open>--dry\<close> and a key configured the store is left as it
  was, whatever the provider answers. When the run ends without an exception, the
  statistics file is still written (as long as it can be), with \<open>updated\<close> counting
  every row whose retry loop obtained an answer, although none of these was saved, and
  \<open>skipped\<close> counting the others; every row of the queryset was processed.
\<close>

theorem dry_run_counts_without_saving:
  assumes "dry os" and "OPENROUTESERVICE_API_KEY e \<noteq> []"
  shows "db_after (refresh_handle e os d sent stats_file) = d \<and>
         (raised (refresh_handle e os d sent stats_file) = None \<longrightarrow>
            stats_after (refresh_handle e os d sent stats_file) =
              (if stats_file_writable e
               then Some \<lparr>updated = int (length (filter (\<lambda>p. \<not> Option.is_none p)
                             (edge_outcomes e os (OPENROUTESERVICE_API_KEY e)
                                (refresh_queryset os d) sent))),
                           skipped = int (length (filter Option.is_none
                             (edge_outcomes e os (OPENROUTESERVICE_API_KEY e)
                                (refresh_queryset os d) sent))),
                           timestamp = utc_now e\<rparr>
               else stats_file) \<and>
            length (edge_outcomes e os (OPENROUTESERVICE_API_KEY e) (refresh_queryset os d) sent)
              = length (refresh_queryset os d))"
proof -
  obtain ex table' u' s' sent' where
    run: "refresh_loop e os (OPENROUTESERVICE_API_KEY e) (refresh_queryset os d)
            (routes d, 0, 0, sent) = (ex, (table', u', s', sent'))"
    by (metis prod.exhaust)
  from refresh_loop_counts [OF run] assms(1) have
    u: "u' = int (length (filter (\<lambda>p. \<not> Option.is_none p)
          (edge_outcomes e os (OPENROUTESERVICE_API_KEY e) (refresh_queryset os d) sent)))"
    and s: "s' = int (length (filter Option.is_none
          (edge_outcomes e os (OPENROUTESERVICE_API_KEY e) (refresh_queryset os d) sent)))"
    and t: "table' = routes d"
    and l: "ex = None \<longrightarrow>
          length (edge_outcomes e os (OPENROUTESERVICE_API_KEY e) (refresh_queryset os d) sent)
            = length (refresh_queryset os d)"
    by simp_all
  show ?thesis
  proof (cases ex)
    case None
    with assms(2) run u s t l show ?thesis
      by (simp add: refresh_handle_def Let_def)
  next
    case (Some x)
    with assms(2) run t show ?thesis
      by (simp add: refresh_handle_def Let_def)
  qed
qed

text \<open>An example run: the provider answers each of the three rows.\<close>

lemma answering_call:
  "ors_distance_duration answering_env s lon1 lat1 lon2 lat2 ''key'' tmo
     = (Inr (Some (2, 2)),
        s @ [\<lparr>url = ''https://api.openrouteservice.org/v2/directions/driving-car/geojson'',
               coordinates = [(lon1, lat1), (lon2, lat2)], authorization = ''key'',
               timeout = tmo\<rparr>])"
  by (simp add: ors_distance_duration_def answering_env_def route_document_def parse_pair_def
      Let_def fdiv_def not_is_inf_small)

lemma refresh_queryset_test_db: "refresh_queryset dry_opts test_db = select_related test_db"
  by (simp add: refresh_queryset_def dry_opts_def default_opts_def)

lemma select_related_test_db: "select_related test_db = 
   [(\<lparr>route_pk = 1, start_stop_id = 1, end_stop_id = 2, distance = 1, duration = None\<rparr>, stop_A, stop_B),
    (\<lparr>route_pk = 2, start_stop_id = 2, end_stop_id = 3, distance = 1, duration = None\<rparr>, stop_B, stop_C),
    (\<lparr>route_pk = 3, start_stop_id = 1, end_stop_id = 3, distance = 5, duration = None\<rparr>, stop_A, stop_C)]"
  by (simp add: select_related_def test_db_def stop_A_def stop_B_def stop_C_def stop_D_def)

lemma edge_outcomes_test_db: "edge_outcomes answering_env dry_opts ''key'' (select_related test_db) []
   = [Some (2, 2), Some (2, 2), Some (2, 2)]"
  by (simp add: select_related_test_db answering_call retry_loop.simps)

theorem dry_run_counts_without_saving_witness:
  "dry dry_opts \<and> OPENROUTESERVICE_API_KEY answering_env \<noteq> [] \<and>
   db_after (refresh_handle answering_env dry_opts test_db [] None) = test_db \<and>
   raised (refresh_handle answering_env dry_opts test_db [] None) = None \<and>
   stats_after (refresh_handle answering_env dry_opts test_db [] None) =
     Some \<lparr>updated = 3, skipped = 0, timestamp = ''2024-01-01T00:00:00+00:00''\<rparr>"
proof -
  have h1: "dry dry_opts" by (simp add: dry_opts_def)
  have h2: "OPENROUTESERVICE_API_KEY answering_env \<noteq> []" by (simp add: answering_env_def)
  have k: "OPENROUTESERVICE_API_KEY answering_env = ''key''" by (simp add: answering_env_def)
  have e: "stats_file_writable answering_env" "utc_now answering_env = ''2024-01-01T00:00:00+00:00''"
    by (simp_all add: answering_env_def)
  have r: "raised (refresh_handle answering_env dry_opts test_db [] None) = None"
    by (simp add: refresh_handle_def Let_def k refresh_queryset_test_db select_related_test_db answering_call retry_loop.simps)
  from dry_run_counts_without_saving [OF h1 h2, of test_db "[]" None] r
  show ?thesis
    using h1 h2 by (simp add: k refresh_queryset_test_db edge_outcomes_test_db e)
qed

text \<open>
  C10 as stated fails: a dry run does not always overwrite the statistics. In the run
  with \<open>garbled_env\<close> the provider answers for the first row; the unparsable body for
  the second row raises JSONDecodeError, which \<open>_ors_distance_duration\<close> does not
  catch, and the file written by the earlier run is left as it was. With no key configured
  the command returns before the pass, and the file is left as it was too.
\<close>

theorem dry_run_stats_counterexample:
  "dry dry_opts \<and>
   edge_outcomes garbled_env dry_opts ''key'' (refresh_queryset dry_opts test_db) []
     = [Some (2, 2)] \<and>
   raised (refresh_handle garbled_env dry_opts test_db [] (Some old_stats))
     = Some JSONDecodeError \<and>
   stats_after (refresh_handle garbled_env dry_opts test_db [] (Some old_stats))
     = Some old_stats \<and>
   raised (refresh_handle no_key_env dry_opts test_db [] (Some old_stats)) = None \<and>
   sent_after (refresh_handle no_key_env dry_opts test_db [] (Some old_stats)) = [] \<and>
   stats_after (refresh_handle no_key_env dry_opts test_db [] (Some old_stats))
     = Some old_stats"
proof -
  have k: "OPENROUTESERVICE_API_KEY garbled_env = ''key''"
    by (simp add: garbled_env_def)
  have first: "ors_distance_duration garbled_env [] lon1 lat1 lon2 lat2 ''key'' tmo
     = (Inr (Some (2, 2)),
        [\<lparr>url = ''https://api.openrouteservice.org/v2/directions/driving-car/geojson'',
          coordinates = [(lon1, lat1), (lon2, lat2)], authorization = ''key'',
          timeout = tmo\<rparr>])" for lon1 lat1 lon2 lat2 tmo
    by (simp add: ors_distance_duration_def garbled_env_def route_document_def parse_pair_def
        Let_def fdiv_def not_is_inf_small)
  have later: "ors_distance_duration garbled_env [req] lon1 lat1 lon2 lat2 ''key'' tmo
     = (Inl JSONDecodeError,
        [req, \<lparr>url = ''https://api.openrouteservice.org/v2/directions/driving-car/geojson'',
          coordinates = [(lon1, lat1), (lon2, lat2)], authorization = ''key'',
          timeout = tmo\<rparr>])" for req lon1 lat1 lon2 lat2 tmo
    by (simp add: ors_distance_duration_def garbled_env_def Let_def)
  have row1: "retry_loop
      (\<lambda>s. ors_distance_duration garbled_env s lon1 lat1 lon2 lat2 ''key'' tmo) n 0 None []
     = (Inr (Some (2, 2)),
        [\<lparr>url = ''https://api.openrouteservice.org/v2/directions/driving-car/geojson'',
          coordinates = [(lon1, lat1), (lon2, lat2)], authorization = ''key'',
          timeout = tmo\<rparr>])" if "0 \<le> n" for lon1 lat1 lon2 lat2 tmo n
    using that by (simp add: retry_loop.simps first)
  have row2: "retry_loop
      (\<lambda>s. ors_distance_duration garbled_env s lon1 lat1 lon2 lat2 ''key'' tmo) n 0 None [req]
     = (Inl JSONDecodeError,
        [req, \<lparr>url = ''https://api.openrouteservice.org/v2/directions/driving-car/geojson'',
          coordinates = [(lon1, lat1), (lon2, lat2)], authorization = ''key'',
          timeout = tmo\<rparr>])" if "0 \<le> n" for lon1 lat1 lon2 lat2 tmo n req
    using that by (subst retry_loop.simps) (simp add: later)
  have out: "edge_outcomes garbled_env dry_opts ''key'' (select_related test_db) []
     = [Some (2, 2)]"
    by (simp add: select_related_test_db row1 row2)
  have run: "raised (refresh_handle garbled_env dry_opts test_db [] (Some old_stats))
               = Some JSONDecodeError \<and>
             stats_after (refresh_handle garbled_env dry_opts test_db [] (Some old_stats))
               = Some old_stats"
    by (simp add: refresh_handle_def Let_def k refresh_queryset_test_db select_related_test_db
        row1 row2)
  have none: "refresh_handle no_key_env dry_opts test_db [] (Some old_stats)
     = \<lparr>raised = None, db_after = test_db, sent_after = [], stats_after = Some old_stats\<rparr>"
    by (simp add: refresh_handle_def no_key_env_def)
  have d: "dry dry_opts"
    by (simp add: dry_opts_def)
  show ?thesis
    using d out run by (simp add: none refresh_queryset_test_db)
qed

section \<open>The matrix builder\<close>







section \<open>The shortest-path engine\<close>

subsection \<open>An invariant rule for the main loop\<close>

lemma dijkstra_loop_rule:
  "I D P H V
   \<Longrightarrow> (\<And>D P H V d u H'. I D P H V \<Longrightarrow> heappop H = Some ((d, u), H') \<Longrightarrow> u \<in> V
                 \<Longrightarrow> I D P H' V)
   \<Longrightarrow> (\<And>D P H V d u H' D' P' H''. I D P H V \<Longrightarrow> heappop H = Some ((d, u), H')
                 \<Longrightarrow> u \<notin> V \<Longrightarrow> u \<noteq> t
                 \<Longrightarrow> relax d u (graph_get g u) (D, P, H') = (D', P', H'')
                 \<Longrightarrow> I D' P' H'' (insert u V))
   \<Longrightarrow> (\<And>D P H V d H'. I D P H V \<Longrightarrow> heappop H = Some ((d, t), H') \<Longrightarrow> t \<notin> V
                 \<Longrightarrow> Q D P)
   \<Longrightarrow> (\<And>D P V. I D P [] V \<Longrightarrow> Q D P)
   \<Longrightarrow> Q (fst (dijkstra_loop g t D P H V)) (snd (dijkstra_loop g t D P H V))"
proof (induction g t D P H V rule: dijkstra_loop.induct)
  case (1 g t D P H V)
  note init = "1.prems"(1) and skip = "1.prems"(2) and step = "1.prems"(3)
    and stop = "1.prems"(4) and empty = "1.prems"(5)
  show ?case
  proof (cases "heappop H")
    case None
    then have h: "H = []" by (cases H) (auto simp: Let_def)
    have "dijkstra_loop g t D P H V = (D, P)"
      using None by (subst dijkstra_loop.simps) simp
    with init h show ?thesis
      by (simp add: empty)
  next
    case (Some x)
    obtain d u H' where x: "x = ((d, u), H')" by (metis prod.exhaust)
    note pop = Some [unfolded x]
    show ?thesis
    proof (cases "u \<in> V")
      case True
      from skip [OF init pop True] have i: "I D P H' V" .
      have "dijkstra_loop g t D P H V = dijkstra_loop g t D P H' V"
        using pop True by (subst dijkstra_loop.simps) simp
      with "1.IH"(1) [OF pop refl refl True i skip step stop empty] show ?thesis
        by simp
    next
      case False
      show ?thesis
      proof (cases "u = t")
        case True
        have "dijkstra_loop g t D P H V = (D, P)"
          using pop False True by (subst dijkstra_loop.simps) simp
        moreover from pop True have pop': "heappop H = Some ((d, t), H')" by simp
        moreover from False True have nv: "t \<notin> V" by simp
        note stop [OF init pop' nv]
        ultimately show ?thesis
          by simp
      next
        case ne: False
        obtain D' P' H'' where r: "relax d u (graph_get g u) (D, P, H') = (D', P', H'')"
          by (metis prod.exhaust)
        from step [OF init pop False ne r] have i: "I D' P' H'' (insert u V)" .
        have "dijkstra_loop g t D P H V = dijkstra_loop g t D' P' H'' (insert u V)"
          using pop False ne r by (subst dijkstra_loop.simps) simp
        with "1.IH"(2) [OF pop refl refl False ne r [symmetric] refl i skip step stop empty]
        show ?thesis
          by simp
      qed
    qed
  qed
qed


subsection \<open>The graph built from the store\<close>

lemma graph_get_setdefault_append:
  "graph_get (setdefault_append u e g) x = (if x = u then graph_get g u @ [e] else graph_get g x)"
  by (induction g) (auto simp: graph_get_def)

lemma graph_get_fold:
  "graph_get (fold add_edge rows g) x
   = graph_get g x
       @ map (\<lambda>r. (end_stop_id r, distance r)) (filter (\<lambda>r. start_stop_id r = x) (map fst rows))"
proof (induction rows arbitrary: g)
  case Nil
  show ?case by simp
next
  case (Cons row rows)
  obtain r s t where row: "row = (r, s, t)" by (cases row)
  show ?case
    by (simp add: row Cons.IH graph_get_setdefault_append)
qed

lemma graph_get_build_graph:
  "graph_get (build_graph d) u
     = map (\<lambda>r. (end_stop_id r, distance r)) (filter (\<lambda>r. start_stop_id r = u) (graph_routes d))"
  by (simp add: build_graph_def graph_routes_def graph_get_fold) (simp add: graph_get_def)

lemma graph_routes_persisted: "set (graph_routes d) \<subseteq> set (routes d)"
  by (auto simp: graph_routes_def select_related_def)


lemma arc_walk_route_walk:
  "arc_walk (build_graph d) u es t
   \<Longrightarrow> \<exists>rs. route_walk (graph_routes d) u rs t \<and> map (\<lambda>r. (end_stop_id r, distance r)) rs = es"
proof (induction es arbitrary: u)
  case Nil
  then show ?case by (intro exI [of _ "[]"]) simp
next
  case (Cons e es)
  obtain v w where e: "e = (v, w)" by (cases e)
  from Cons.prems e have arc: "(v, w) \<in> set (graph_get (build_graph d) u)"
    and rest: "arc_walk (build_graph d) v es t"
    by simp_all
  from arc obtain r where r: "r \<in> set (graph_routes d)" "start_stop_id r = u"
    "end_stop_id r = v" "distance r = w"
    by (auto simp: graph_get_build_graph)
  from Cons.IH [OF rest] obtain rs where
    rs: "route_walk (graph_routes d) v rs t" "map (\<lambda>r. (end_stop_id r, distance r)) rs = es"
    by blast
  show ?case
    by (intro exI [of _ "r # rs"]) (simp add: r rs e)
qed

lemma arc_walk_snoc:
  "arc_walk g a es u \<Longrightarrow> (v, w) \<in> set (graph_get g u) \<Longrightarrow> arc_walk g a (es @ [(v, w)]) v"
  by (induction es arbitrary: a) auto

subsection \<open>Unreachable destinations\<close>

lemma reached_refl: "reached g a a"
  unfolding reached_def by (intro exI [of _ "[]"]) simp

lemma reached_arc: "reached g a u \<Longrightarrow> (v, w) \<in> set (graph_get g u) \<Longrightarrow> reached g a v"
  unfolding reached_def using arc_walk_snoc by blast

lemma relax_arc_keys_reached:
  assumes "keys_reached g a D H" and "reached g a u" and "e \<in> set (graph_get g u)"
    and "relax_arc d u e (D, P, H) = (D', P', H')"
  shows "keys_reached g a D' H'"
proof -
  obtain v w where e: "e = (v, w)" by (cases e)
  from assms(2,3) e have "reached g a v" by (auto intro: reached_arc)
  with assms(1,4) show ?thesis
    by (auto simp: e keys_reached_def Let_def heappush_def split: if_splits)
qed

lemma relax_keys_reached:
  "keys_reached g a D H \<Longrightarrow> reached g a u \<Longrightarrow> set es \<subseteq> set (graph_get g u)
   \<Longrightarrow> relax d u es (D, P, H) = (D', P', H') \<Longrightarrow> keys_reached g a D' H'"
proof (induction es arbitrary: D P H)
  case Nil
  then show ?case by simp
next
  case (Cons e es)
  obtain D1 P1 H1 where step: "relax_arc d u e (D, P, H) = (D1, P1, H1)"
    by (metis prod.exhaust)
  from Cons.prems(3) have e: "e \<in> set (graph_get g u)" and es: "set es \<subseteq> set (graph_get g u)"
    by simp_all
  from relax_arc_keys_reached [OF Cons.prems(1,2) e step] have "keys_reached g a D1 H1" .
  moreover from Cons.prems(4) step have "relax d u es (D1, P1, H1) = (D', P', H')" by simp
  ultimately show ?case
    using Cons.IH Cons.prems(2) es by blast
qed

lemma dijkstra_loop_keys_reached:
  assumes "keys_reached g a D H" and "dijkstra_loop g t D P H V = (D', P')" and "D' v = Some d"
  shows "reached g a v"
proof -
  have "(\<lambda>D P. \<forall>v d. D v = Some d \<longrightarrow> reached g a v)
          (fst (dijkstra_loop g t D P H V)) (snd (dijkstra_loop g t D P H V))"
  proof (rule dijkstra_loop_rule [where I = "\<lambda>D P H V. keys_reached g a D H"], goal_cases)
    case 1
    show ?case by (rule assms(1))
  next
    case (2 D P H V d u H')
    from heappop_Some(2) [OF 2(2)] have "set H' \<subseteq> set H"
      by (simp add: set_remove1_subset)
    with 2(1) show ?case
      by (auto simp: keys_reached_def)
  next
    case (3 D P H V d u H' D' P' H'')
    from heappop_Some(1) [OF 3(2)] 3(1) have u: "reached g a u"
      by (auto simp: keys_reached_def)
    from heappop_Some(2) [OF 3(2)] have "set H' \<subseteq> set H"
      by (simp add: set_remove1_subset)
    with 3(1) have "keys_reached g a D H'"
      by (auto simp: keys_reached_def)
    from relax_keys_reached [OF this u subset_refl 3(5)] show ?case .
  next
    case (4 D P H V d H')
    then show ?case by (auto simp: keys_reached_def)
  next
    case (5 D P V)
    then show ?case by (auto simp: keys_reached_def)
  qed
  with assms(2,3) show ?thesis by simp
qed

text \<open>
  C3. For distinct ids such that no directed path leads from origin to destination in the
  built graph, \<open>dijkstra_shortest_path\<close> returns \<open>None\<close> (no exception, no
  result dict), and the endpoint answers 404 with the "No path found" detail and sends no
  request. Nothing is assumed about the weights.
\<close>

theorem unreachable_is_not_found:
  assumes "origin_id \<noteq> destination_id"
    and "\<forall>rs. \<not> route_walk (graph_routes d) origin_id rs destination_id"
  shows "dijkstra_shortest_path d origin_id destination_id = Some (Inr None) \<and>
         shortest_route e d sent (Some origin_id) (Some destination_id)
           = Some (Response 404 (Detail ''No path found between the selected stops''), sent)"
proof -
  obtain D P where loop:
    "dijkstra_loop (build_graph d) destination_id [origin_id \<mapsto> 0] [origin_id \<mapsto> None]
       [(0, origin_id)] {} = (D, P)"
    by (metis prod.exhaust)
  have init: "keys_reached (build_graph d) origin_id [origin_id \<mapsto> 0] [(0, origin_id)]"
    by (auto simp: keys_reached_def reached_refl split: if_splits)
  have "D destination_id = None"
  proof (rule ccontr)
    assume "D destination_id \<noteq> None"
    then obtain dd where "D destination_id = Some dd" by auto
    from dijkstra_loop_keys_reached [OF init loop this]
    obtain es where "arc_walk (build_graph d) origin_id es destination_id"
      by (auto simp: reached_def)
    from arc_walk_route_walk [OF this] assms(2) show False by blast
  qed
  then have "dijkstra_shortest_path d origin_id destination_id = Some (Inr None)"
    using assms(1) loop by (simp add: dijkstra_shortest_path_def)
  then show ?thesis
    by (simp add: shortest_route_def)
qed

theorem unreachable_is_not_found_witness:
  "(3::int) \<noteq> 1 \<and> (\<forall>rs. \<not> route_walk (graph_routes test_db) 3 rs 1) = True \<and>
   dijkstra_shortest_path test_db 3 1 = Some (Inr None) \<and>
   shortest_route no_key_env test_db [] (Some 3) (Some 1)
     = Some (Response 404 (Detail ''No path found between the selected stops''), [])"
proof -
  have h1: "(3::int) \<noteq> 1" by simp
  have gr: "graph_routes test_db = routes test_db"
    by (simp add: graph_routes_def select_related_def test_db_def
        stop_A_def stop_B_def stop_C_def stop_D_def)
  have h2: "\<forall>rs. \<not> route_walk (graph_routes test_db) 3 rs 1"
  proof
    fix rs
    show "\<not> route_walk (graph_routes test_db) 3 rs 1"
      unfolding gr by (cases rs) (auto simp: test_db_def)
  qed
  from unreachable_is_not_found [OF h1 h2, of no_key_env "[]"] h2 show ?thesis
    by simp
qed

subsection \<open>The returned path follows persisted routes\<close>

lemma backlinked_snoc:
  "backlinked P xs \<Longrightarrow> (xs \<noteq> [] \<Longrightarrow> P (last xs) = Some (Some c)) \<Longrightarrow> backlinked P (xs @ [c])"
  by (induction P xs rule: backlinked.induct) auto

lemma walk_back_backlinked:
  assumes "walk_back P cur acc = Some ys"
  shows "backlinked P acc \<and> (acc \<noteq> [] \<longrightarrow> prev_get P (last acc) = cur) \<longrightarrow> backlinked P ys"
proof (rule walk_back.raw_induct
    [where P = "\<lambda>P cur acc ys.
        backlinked P acc \<and> (acc \<noteq> [] \<longrightarrow> prev_get P (last acc) = cur) \<longrightarrow> backlinked P ys",
     OF _ assms],
    goal_cases)
  case (1 wb P cur acc ys)
  show ?case
  proof (intro impI, elim conjE)
    assume b: "backlinked P acc" and l: "acc \<noteq> [] \<longrightarrow> prev_get P (last acc) = cur"
    show "backlinked P ys"
    proof (cases cur)
      case None
      with 1(2) b show ?thesis by simp
    next
      case (Some c)
      with 1(2) have rec: "wb P (prev_get P c) (acc @ [c]) = Some ys" by simp
      have "acc \<noteq> [] \<Longrightarrow> P (last acc) = Some (Some c)"
        using l Some by (auto simp: prev_get_def split: option.splits)
      with b have "backlinked P (acc @ [c])" by (rule backlinked_snoc)
      with 1(1) [OF rec] show ?thesis by simp
    qed
  qed
qed

lemma linked_snoc:
  "linked P (zs @ [y]) \<Longrightarrow> P x = Some (Some y) \<Longrightarrow> linked P (zs @ [y, x])"
  by (induction P zs rule: linked.induct) auto

lemma backlinked_rev: "backlinked P ys \<Longrightarrow> linked P (rev ys)"
proof (induction P ys rule: backlinked.induct)
  case (1 P x y xs)
  then have "linked P (rev xs @ [y])" by simp
  from linked_snoc [OF this, of x] 1 show ?case by simp
qed simp_all

lemma linked_pairs:
  "linked P xs \<Longrightarrow> (u, v) \<in> set (zip xs (tl xs)) \<Longrightarrow> P v = Some (Some u)"
  by (induction P xs rule: linked.induct) auto

lemma relax_arc_prev_arcs:
  assumes "prev_arcs g P" and "e \<in> set (graph_get g u)"
    and "relax_arc d u e (D, P, H) = (D', P', H')"
  shows "prev_arcs g P'"
proof -
  obtain v w where e: "e = (v, w)" by (cases e)
  with assms show ?thesis
    by (auto simp: prev_arcs_def Let_def split: if_splits)
qed

lemma relax_prev_arcs:
  "prev_arcs g P \<Longrightarrow> set es \<subseteq> set (graph_get g u)
   \<Longrightarrow> relax d u es (D, P, H) = (D', P', H') \<Longrightarrow> prev_arcs g P'"
proof (induction es arbitrary: D P H)
  case Nil
  then show ?case by simp
next
  case (Cons e es)
  obtain D1 P1 H1 where step: "relax_arc d u e (D, P, H) = (D1, P1, H1)"
    by (metis prod.exhaust)
  from Cons.prems(2) have e: "e \<in> set (graph_get g u)" and es: "set es \<subseteq> set (graph_get g u)"
    by simp_all
  from relax_arc_prev_arcs [OF Cons.prems(1) e step] have "prev_arcs g P1" .
  moreover from Cons.prems(3) step have "relax d u es (D1, P1, H1) = (D', P', H')" by simp
  ultimately show ?case
    using Cons.IH es by blast
qed

lemma dijkstra_loop_prev_arcs:
  assumes "prev_arcs g P" and "dijkstra_loop g t D P H V = (D', P')"
  shows "prev_arcs g P'"
proof -
  have "(\<lambda>D P. prev_arcs g P)
          (fst (dijkstra_loop g t D P H V)) (snd (dijkstra_loop g t D P H V))"
  proof (rule dijkstra_loop_rule [where I = "\<lambda>D P H V. prev_arcs g P"], goal_cases)
    case 1
    show ?case by (rule assms(1))
  next
    case (3 D P H V d u H' D' P' H'')
    from relax_prev_arcs [OF 3(1) subset_refl 3(5)] show ?case .
  qed
  with assms(2) show ?thesis by simp
qed

text \<open>Each consecutive pair of a returned path is a persisted route, whatever the weights.\<close>

lemma path_pairs_are_routes:
  assumes res: "dijkstra_shortest_path d origin_id destination_id = Some (Inr (Some res))"
    and uv: "(u, v) \<in> set (zip (path res) (tl (path res)))"
  shows "\<exists>r \<in> set (routes d). start_stop_id r = u \<and> end_stop_id r = v"
proof (cases "origin_id = destination_id")
  case True
  with res uv show ?thesis
    by (auto simp: dijkstra_shortest_path_def split: sum.splits)
next
  case False
  obtain D P where loop:
    "dijkstra_loop (build_graph d) destination_id [origin_id \<mapsto> 0] [origin_id \<mapsto> None]
       [(0, origin_id)] {} = (D, P)"
    by (metis prod.exhaust)
  have "prev_arcs (build_graph d) [origin_id \<mapsto> None]"
    by (simp add: prev_arcs_def)
  from dijkstra_loop_prev_arcs [OF this loop] have arcs: "prev_arcs (build_graph d) P" .
  from res False loop obtain ys where
    wb: "walk_back P (Some destination_id) [] = Some ys" and p: "path res = rev ys"
    by (auto simp: dijkstra_shortest_path_def Let_def split: option.splits sum.splits)
  from walk_back_backlinked [OF wb] have "backlinked P ys" by simp
  from linked_pairs [OF backlinked_rev [OF this]] uv p have "P v = Some (Some u)" by simp
  with arcs obtain w where "(v, w) \<in> set (graph_get (build_graph d) u)"
    unfolding prev_arcs_def by blast
  then obtain r where "r \<in> set (graph_routes d)" "start_stop_id r = u" "end_stop_id r = v"
    by (auto simp: graph_get_build_graph)
  with graph_routes_persisted [of d] show ?thesis by blast
qed

subsection \<open>Duration aggregation\<close>

lemma map_of_keyed_find:
  "map_of (map (\<lambda>r. (k r, f r)) rs) x = map_option f (find (\<lambda>r. k r = x) rs)"
  by (induction rs) auto

lemma find_filter_implied:
  "(\<And>r. P r \<Longrightarrow> F r) \<Longrightarrow> find P (filter F rs) = find P rs"
  by (induction rs) auto

lemma map_of_rev_distinct:
  assumes "distinct (map fst xs)"
  shows "map_of (rev xs) = map_of xs"
proof -
  have "distinct (map fst (rev xs))"
    using assms by (simp add: rev_map [symmetric])
  then show ?thesis
    using assms by (subst map_of_inject_set) auto
qed

lemma dur_map_lookup:
  assumes "unique_together d" and "(u, v) \<in> set edge_pairs"
  shows "(case dur_map d edge_pairs (u, v) of None \<Rightarrow> None | Some x \<Rightarrow> x) = edge_duration d u v"
proof -
  let ?F = "\<lambda>r. start_stop_id r \<in> fst ` set edge_pairs \<and> end_stop_id r \<in> snd ` set edge_pairs"
  let ?k = "\<lambda>r. (start_stop_id r, end_stop_id r)"
  let ?xs = "map (\<lambda>r. (?k r, duration r)) (filter ?F (routes d))"
  have "map fst ?xs = map ?k (filter ?F (routes d))"
    by simp
  also have "\<dots> = filter (\<lambda>p. fst p \<in> fst ` set edge_pairs \<and> snd p \<in> snd ` set edge_pairs)
                      (map ?k (routes d))"
    by (simp add: filter_map comp_def)
  finally have "distinct (map fst ?xs)"
    using assms(1) by (simp add: unique_together_def)
  then have m: "dur_map d edge_pairs = map_of ?xs"
    unfolding dur_map_def by (rule map_of_rev_distinct)
  have l: "map_of ?xs (u, v)
             = map_option duration (find (\<lambda>r. ?k r = (u, v)) (filter ?F (routes d)))"
    by (rule map_of_keyed_find)
  have f: "find (\<lambda>r. ?k r = (u, v)) (filter ?F (routes d)) = find (\<lambda>r. ?k r = (u, v)) (routes d)"
    using assms(2) by (intro find_filter_implied) force
  show ?thesis
    unfolding m l f by (simp add: edge_duration_def split: option.splits)
qed

lemma sum_durations_eq:
  assumes "\<And>u v. (u, v) \<in> set ps \<Longrightarrow> (case m (u, v) of None \<Rightarrow> None | Some x \<Rightarrow> x) = f u v"
  shows "sum_durations m ps acc =
           (if \<forall>(u, v) \<in> set ps. f u v \<noteq> None
            then Some (foldl fadd acc (map (\<lambda>(u, v). the (f u v)) ps)) else None)"
  using assms
proof (induction ps arbitrary: acc)
  case Nil
  show ?case by simp
next
  case (Cons p ps)
  obtain u v where p: "p = (u, v)" by (cases p)
  have here: "(case m (u, v) of None \<Rightarrow> None | Some x \<Rightarrow> x) = f u v"
    using Cons.prems [of u v] p by simp
  have rest: "\<And>u v. (u, v) \<in> set ps \<Longrightarrow> (case m (u, v) of None \<Rightarrow> None | Some x \<Rightarrow> x) = f u v"
    using Cons.prems by simp
  show ?case
  proof (cases "f u v")
    case None
    with here show ?thesis by (auto simp: p)
  next
    case (Some x)
    with here Cons.IH [OF rest, of "fadd acc x"] show ?thesis
      by (simp add: p)
  qed
qed

lemma total_duration_eq:
  assumes "unique_together d" and "2 \<le> length path_ids"
  shows "total_duration d path_ids =
           (if \<forall>(u, v) \<in> set (zip path_ids (tl path_ids)). edge_duration d u v \<noteq> None
            then Some (py_round (float_sum (map (\<lambda>(u, v). the (edge_duration d u v))
                                   (zip path_ids (tl path_ids)))) 2)
            else None)"
proof -
  from assms(2) obtain a b rest where "path_ids = a # b # rest"
    by (cases path_ids; cases "tl path_ids") auto
  then have ne: "zip path_ids (tl path_ids) \<noteq> []" by simp
  show ?thesis
    unfolding total_duration_def Let_def float_sum_def
    using ne sum_durations_eq [of "zip path_ids (tl path_ids)"
        "dur_map d (zip path_ids (tl path_ids))" "edge_duration d" 0,
        OF dur_map_lookup [OF assms(1)]]
    by simp
qed

lemma dijkstra_result_duration:
  assumes "dijkstra_shortest_path d origin_id destination_id = Some (Inr (Some res))"
    and "2 \<le> length (path res)"
  shows "total_duration_min res = total_duration d (path res)"
proof (cases "origin_id = destination_id")
  case True
  with assms show ?thesis
    by (auto simp: dijkstra_shortest_path_def split: sum.splits)
next
  case False
  with assms(1) show ?thesis
    by (auto simp: dijkstra_shortest_path_def Let_def split: prod.splits option.splits sum.splits)
qed

text \<open>
  C2, amended. Under the model's \<open>unique_together\<close> constraint, for every result with
  at least two stops every consecutive pair of the returned path is a persisted route,
  and the field \<open>total_duration_min\<close> is present if and only if each of these routes
  has a recorded duration; when present it is \<open>round(acc, 2)\<close>, where \<open>acc\<close> is the
  sum of those durations as the code accumulates it (from 0.0, in the order of the path,
  in double arithmetic), and when one is absent the field is omitted.
\<close>

theorem duration_present_iff_all_edges_timed:
  assumes "unique_together d"
    and "dijkstra_shortest_path d origin_id destination_id = Some (Inr (Some res))"
    and "2 \<le> length (path res)"
  shows "(\<forall>(u, v) \<in> set (zip (path res) (tl (path res))).
            \<exists>r \<in> set (routes d). start_stop_id r = u \<and> end_stop_id r = v) \<and>
         (total_duration_min res \<noteq> None \<longleftrightarrow>
            (\<forall>(u, v) \<in> set (zip (path res) (tl (path res))). edge_duration d u v \<noteq> None)) \<and>
         (\<forall>x. total_duration_min res = Some x \<longrightarrow>
            x = py_round (float_sum (map (\<lambda>(u, v). the (edge_duration d u v))
                            (zip (path res) (tl (path res))))) 2)"
proof -
  have edges: "\<forall>(u, v) \<in> set (zip (path res) (tl (path res))).
                 \<exists>r \<in> set (routes d). start_stop_id r = u \<and> end_stop_id r = v"
    using path_pairs_are_routes [OF assms(2)] by blast
  have field: "(total_duration_min res \<noteq> None \<longleftrightarrow>
            (\<forall>(u, v) \<in> set (zip (path res) (tl (path res))). edge_duration d u v \<noteq> None)) \<and>
         (\<forall>x. total_duration_min res = Some x \<longrightarrow>
            x = py_round (float_sum (map (\<lambda>(u, v). the (edge_duration d u v))
                            (zip (path res) (tl (path res))))) 2)"
    unfolding dijkstra_result_duration [OF assms(2,3)] total_duration_eq [OF assms(1,3)]
    by simp
  from edges field show ?thesis by (rule conjI)
qed

text \<open>The doubles that occur in the example.\<close>

lemma example_doubles:
  "round_double (129 / 512) = 129 / 512"
  "round_double (1153 / 512) = 1153 / 512"
  "round_double (9 / 4) = 9 / 4"
  using round_double_fraction [of 129 9] round_double_fraction [of 1153 9]
    round_double_fraction [of 9 2]
  by simp_all

lemma float_sum_example: "float_sum [129 / 512, 2] = 1153 / 512"
  by (simp add: float_sum_def fadd_def not_is_inf_small example_doubles)

lemma build_graph_timed_db:
  "build_graph timed_db = [(1, [(2, 1), (3, 5)]), (2, [(3, 1)])]"
  by (simp add: timed_db_def build_graph_def select_related_def
      stop_A_def stop_B_def stop_C_def stop_D_def)

lemma dijkstra_timed_db_A_C:
  "dijkstra_shortest_path timed_db 1 3 =
     Some (Inr (Some \<lparr>path = [1, 2, 3], total_distance = 2,
       stops = [stop_A, stop_B, stop_C], total_duration_min = Some (9 / 4)\<rparr>))"
proof -
  have loop: "dijkstra_loop (build_graph timed_db) 3 [1 \<mapsto> 0] [1 \<mapsto> None] [(0, 1)] {}
                = ([1 \<mapsto> 0, 2 \<mapsto> 1, 3 \<mapsto> 2], [1 \<mapsto> None, 2 \<mapsto> Some 1, 3 \<mapsto> Some 2])"
    by (simp add: dijkstra_loop.simps build_graph_timed_db graph_get_def Let_def heappush_def
        fadd_def not_is_inf_small)
  have walk: "walk_back [1 \<mapsto> None, 2 \<mapsto> Some 1, 3 \<mapsto> Some 2] (Some 3) [] = Some [3, 2, 1]"
    by (simp add: walk_back.simps prev_get_def)
  have stops: "ordered_stops (stops_by_id timed_db [1, 2, 3]) [1, 2, 3]
                 = Inr [stop_A, stop_B, stop_C]"
    by (simp add: stops_by_id_def timed_db_def stop_A_def stop_B_def stop_C_def stop_D_def)
  have dur: "total_duration timed_db [1, 2, 3] = Some (9 / 4)"
    by (simp add: total_duration_def dur_map_def timed_db_def py_round_def round_half_even_def
        fadd_def not_is_inf_small example_doubles)
  show ?thesis
    by (simp add: dijkstra_shortest_path_def loop walk stops dur Let_def
        del: ordered_stops.simps)
qed

theorem duration_present_iff_all_edges_timed_witness:
  "unique_together timed_db \<and>
   dijkstra_shortest_path timed_db 1 3 =
     Some (Inr (Some \<lparr>path = [1, 2, 3], total_distance = 2,
       stops = [stop_A, stop_B, stop_C], total_duration_min = Some (9 / 4)\<rparr>)) \<and>
   edge_duration timed_db 1 2 = Some (129 / 512) \<and> edge_duration timed_db 2 3 = Some 2 \<and>
   (9 / 4 :: real) = py_round (float_sum [129 / 512, 2]) 2"
proof -
  have h1: "unique_together timed_db"
    by (simp add: unique_together_def timed_db_def)
  have h3: "2 \<le> length (path \<lparr>path = [1, 2, 3], total_distance = 2,
       stops = [stop_A, stop_B, stop_C], total_duration_min = Some (9 / 4)\<rparr>)"
    by simp
  have e: "edge_duration timed_db 1 2 = Some (129 / 512)" "edge_duration timed_db 2 3 = Some 2"
    by (simp_all add: edge_duration_def timed_db_def)
  note t = duration_present_iff_all_edges_timed [OF h1 dijkstra_timed_db_A_C h3]
  have r: "(9 / 4 :: real) = py_round (float_sum [129 / 512, 2]) 2"
    using t [THEN conjunct2, THEN conjunct2, rule_format, of "9 / 4"] e by simp
  show ?thesis
    using h1 dijkstra_timed_db_A_C e r by blast
qed

text \<open>
  C2 as stated fails: on the path A, B, C with durations 0.251953125 and 2 the field is
  present and holds 2.25, which is not the sum of the durations: the exact sum and the sum
  that the code accumulates are both 2.251953125.
\<close>

theorem duration_sum_counterexample:
  "dijkstra_shortest_path timed_db 1 3 =
     Some (Inr (Some \<lparr>path = [1, 2, 3], total_distance = 2,
       stops = [stop_A, stop_B, stop_C], total_duration_min = Some (9 / 4)\<rparr>)) \<and>
   edge_duration timed_db 1 2 = Some (129 / 512) \<and> edge_duration timed_db 2 3 = Some 2 \<and>
   (9 / 4 :: real) \<noteq> 129 / 512 + 2 \<and>
   (9 / 4 :: real) \<noteq> float_sum [129 / 512, 2]"
  using dijkstra_timed_db_A_C by (simp add: edge_duration_def timed_db_def float_sum_example)

subsection \<open>Shortest paths under non-negative weights\<close>






























end
